theory Spec2Isabelle
  imports
    Complex_Main
    "HOL-Library.Word"
    "HOL-Library.Char_ord"
    "HOL-Library.List_Lexorder"
    "HOL-Library.Sublist"
    "HOL-Library.AList"
begin

section \<open>AKWF-js/convert.py: WAV banks to JSON\<close>

text \<open>
  The script reads the mono 16-bit WAV files of every \<^verbatim>\<open>AKWF_*\<close> directory, writes one
  JSON file per bank and a manifest. The model below follows \<^verbatim>\<open>convert.py\<close> function by
  function. The file system, the \<^verbatim>\<open>wave\<close> reader, \<^verbatim>\<open>struct.unpack\<close>, \<^verbatim>\<open>round\<close> and
  \<^verbatim>\<open>pathlib\<close> are the Python standard library; each is modelled by the part of its
  documented behaviour that the script uses.
\<close>

subsection \<open>Errors and files\<close>

text \<open>
  The exceptions the script can meet. None of them is caught in \<^verbatim>\<open>convert.py\<close>.
  \<^item> \<open>IsADirectoryError\<close>: \<^verbatim>\<open>wave.open\<close> on a path that is a directory;
  \<^item> \<open>WaveError\<close>: \<^verbatim>\<open>wave.Error\<close> or \<^verbatim>\<open>EOFError\<close> from the header parser;
  \<^item> \<open>StructError\<close>: \<^verbatim>\<open>struct.error\<close> from \<^verbatim>\<open>struct.unpack\<close>.
\<close>

datatype error = IsADirectoryError | WaveError | StructError

type_synonym byte = "8 word"

text \<open>
  What a RIFF/WAVE file holds, as far as \<^verbatim>\<open>wave.open\<close> looks at it: whether the format tag
  is one the reader accepts (PCM), the channel count and the bits per sample of the
  \<^verbatim>\<open>fmt\<close> chunk, the size the \<^verbatim>\<open>data\<close> chunk declares, and the bytes of that chunk that
  are really in the file (fewer than declared when the file is cut short).
\<close>

record riff =
  pcm :: bool
  channels :: nat
  bits :: nat
  chunksize :: nat
  payload :: "byte list"

text \<open>
  A file is either something \<^verbatim>\<open>wave.open\<close> cannot parse (no RIFF id, no \<^verbatim>\<open>fmt\<close> or
  \<^verbatim>\<open>data\<close> chunk, a header cut short) or a RIFF/WAVE file. A directory lists its
  entries by name, in the order the operating system returns them.
\<close>

datatype content = NotWave | Riff riff

datatype node = File content | Dir "(string \<times> node) list"

fun is_dir :: "node \<Rightarrow> bool" where
  "is_dir (Dir _) = True"
| "is_dir (File _) = False"

subsection \<open>The \<^verbatim>\<open>wave\<close> reader\<close>

text \<open>The state of an opened \<^verbatim>\<open>Wave_read\<close> object that the script uses.\<close>

record wave_read =
  w_nchannels :: nat
  w_sampwidth :: nat
  w_framesize :: nat
  w_nframes :: nat
  w_chunksize :: nat
  w_data :: "byte list"

text \<open>
  \<^verbatim>\<open>wave.open(path, 'rb')\<close>: the format tag must be PCM, the sample width is
  \<^verbatim>\<open>(bits + 7) // 8\<close> and must not be 0, the channel count must not be 0, the frame size is
  \<^verbatim>\<open>nchannels * sampwidth\<close> and the frame count is \<^verbatim>\<open>chunksize // framesize\<close>.
\<close>

definition wave_open :: "node \<Rightarrow> error + wave_read" where
  "wave_open nd =
     (case nd of
        Dir _ \<Rightarrow> Inl IsADirectoryError
      | File NotWave \<Rightarrow> Inl WaveError
      | File (Riff r) \<Rightarrow>
          (if \<not> pcm r then Inl WaveError
           else let sampwidth = (bits r + 7) div 8 in
             if sampwidth = 0 then Inl WaveError
             else if channels r = 0 then Inl WaveError
             else let framesize = channels r * sampwidth in
               Inr \<lparr>w_nchannels = channels r, w_sampwidth = sampwidth,
                    w_framesize = framesize, w_nframes = chunksize r div framesize,
                    w_chunksize = chunksize r, w_data = payload r\<rparr>))"

text \<open>
  \<^verbatim>\<open>readframes(n)\<close> at position 0: nothing for \<^verbatim>\<open>n == 0\<close>, otherwise at most
  \<^verbatim>\<open>n * framesize\<close> bytes of the data chunk, never past the declared chunk size and
  never past the end of the file.
\<close>

definition readframes :: "wave_read \<Rightarrow> nat \<Rightarrow> byte list" where
  "readframes w n =
     (if n = 0 then [] else take (min (n * w_framesize w) (w_chunksize w)) (w_data w))"

subsection \<open>\<^verbatim>\<open>struct.unpack\<close> and \<^verbatim>\<open>round\<close>\<close>

text \<open>
  One \<^verbatim>\<open>h\<close> item of a little-endian format: the second byte is the high byte of a
  16-bit two's complement number.
\<close>

fun unpack_items :: "byte list \<Rightarrow> int list" where
  "unpack_items (lo # hi # rest) = sint (word_cat hi lo :: 16 word) # unpack_items rest"
| "unpack_items _ = []"

text \<open>
  \<^verbatim>\<open>struct.unpack(f'<{n}h', raw)\<close>: the buffer must have exactly the size of the format,
  \<^verbatim>\<open>2 * n\<close> bytes, or \<^verbatim>\<open>struct.error\<close> is raised.
\<close>

definition struct_unpack :: "nat \<Rightarrow> byte list \<Rightarrow> error + int list" where
  "struct_unpack n raw = (if length raw \<noteq> 2 * n then Inl StructError else Inr (unpack_items raw))"

text \<open>
  Rounding to the nearest integer, ties to the even one: what CPython's \<^verbatim>\<open>round\<close> does
  with the exact value of a float.
\<close>

definition round_half_even :: "rat \<Rightarrow> int" where
  "round_half_even x =
     (let f = \<lfloor>x\<rfloor>; d = x - of_int f in
      if d < 1 / 2 then f
      else if 1 / 2 < d then f + 1
      else if even f then f else f + 1)"

definition py_round :: "rat \<Rightarrow> nat \<Rightarrow> rat" where
  "py_round x ndigits = of_int (round_half_even (x * 10 ^ ndigits)) / 10 ^ ndigits"

text \<open>
  \<^verbatim>\<open>round(s / 32768.0, 6)\<close>. A sample \<open>s\<close> has at most 16 bits and 32768 is a power of
  two, so the float quotient is the exact rational \<open>s / 32768\<close>. \<^verbatim>\<open>round(x, 6)\<close> rounds
  the exact value of \<open>x\<close> correctly to six decimals and returns the float nearest to
  that decimal, which \<^verbatim>\<open>json.dump\<close> prints as that decimal again. A float of the
  output is therefore modelled by the decimal it prints as, a rational number.
\<close>

definition normalize :: "int \<Rightarrow> rat" where
  "normalize s = py_round (of_int s / 32768) 6"

subsection \<open>\<^verbatim>\<open>read_wav\<close>\<close>

text \<open>
  The result is \<open>Inl e\<close> when an exception leaves the function, \<open>Inr None\<close> when the file
  is skipped, and \<open>Inr (Some samples)\<close> otherwise.
\<close>

definition read_wav :: "node \<Rightarrow> error + rat list option" where
  "read_wav filepath =
     (case wave_open filepath of
        Inl e \<Rightarrow> Inl e
      | Inr wav \<Rightarrow>
          (let n_channels = w_nchannels wav in
           if n_channels \<noteq> 1 then Inr None
           else
             let n_frames = w_nframes wav;
                 raw_data = readframes wav n_frames
             in case struct_unpack n_frames raw_data of
                  Inl e \<Rightarrow> Inl e
                | Inr samples \<Rightarrow> Inr (Some (map normalize samples))))"

subsection \<open>\<^verbatim>\<open>pathlib\<close>: \<^verbatim>\<open>glob\<close>, \<^verbatim>\<open>stem\<close> and the order of paths\<close>

text \<open>
  A glob pattern of literal characters and \<^verbatim>\<open>*\<close> against a file name: \<^verbatim>\<open>*\<close> matches any
  run of characters, the empty one too, and a leading dot is not special in
  \<^verbatim>\<open>pathlib\<close>. Matching is case-sensitive, as on POSIX.
\<close>

fun glob_match :: "string \<Rightarrow> string \<Rightarrow> bool" where
  "glob_match [] s = (s = [])"
| "glob_match (p # ps) [] = (p = CHR ''*'' \<and> glob_match ps [])"
| "glob_match (p # ps) (c # cs) =
     (if p = CHR ''*'' then glob_match ps (c # cs) \<or> glob_match (p # ps) cs
      else p = c \<and> glob_match ps cs)"

text \<open>
  \<^verbatim>\<open>Path.glob(pattern)\<close> on a directory: the entries whose name matches, files and
  directories alike. \<^verbatim>\<open>sorted\<close> orders paths of one directory by their names, compared
  character by character; the sort is stable.
\<close>

definition glob :: "string \<Rightarrow> (string \<times> node) list \<Rightarrow> (string \<times> node) list" where
  "glob pattern entries = filter (\<lambda>e. glob_match pattern (fst e)) entries"

definition sorted_paths :: "(string \<times> node) list \<Rightarrow> (string \<times> node) list" where
  "sorted_paths ps = sort_key fst ps"

text \<open>\<^verbatim>\<open>str.rfind(c)\<close>: the index of the last occurrence of \<open>c\<close>, or \<open>-1\<close>.\<close>

fun rfind :: "char \<Rightarrow> string \<Rightarrow> int" where
  "rfind c [] = - 1"
| "rfind c (x # xs) =
     (let i = rfind c xs in if 0 \<le> i then i + 1 else if x = c then 0 else - 1)"

text \<open>
  \<^verbatim>\<open>PurePath.stem\<close>: the name up to its last dot, when that dot is neither the first
  nor the last character of the name; the whole name otherwise.
\<close>

definition stem :: "string \<Rightarrow> string" where
  "stem name =
     (let i = rfind CHR ''.'' name in
      if 0 < i \<and> i < int (length name) - 1 then take (nat i) name else name)"

subsection \<open>Effects\<close>

text \<open>
  What \<^verbatim>\<open>json.dump\<close> is given. A written file is the value and the \<^verbatim>\<open>indent\<close> argument
  (\<open>None\<close> for the compact form).
\<close>

datatype json = JString string | JNumber rat | JArray "json list" | JObject "(string \<times> json) list"

text \<open>
  The lines the script prints: \<^verbatim>\<open>Processed <bank>: <count> waveforms\<close> and
  \<^verbatim>\<open>Generated <n> bank files and manifest.json\<close> on the standard output,
  \<^verbatim>\<open>Error: Directory <dir> not found\<close> and \<^verbatim>\<open>Error: No AKWF_* directories found in <dir>\<close>
  on the error stream.
\<close>

datatype line = Processed string nat | Generated nat

datatype errline = DirectoryNotFound | NoBankDirectories

text \<open>
  The effects of a run, in the order they happen: a sample file of a bank is opened
  for reading, a file of the output directory is opened with mode \<^verbatim>\<open>'w'\<close> and written,
  a line is printed.
\<close>

datatype event =
    Open string string
  | Write string json "nat option"
  | Print line
  | PrintErr errline

text \<open>
  The output directory after a run: opening with mode \<^verbatim>\<open>'w'\<close> replaces whatever the
  file held.
\<close>

fun apply_event :: "(string \<rightharpoonup> json \<times> nat option) \<Rightarrow> event \<Rightarrow> (string \<rightharpoonup> json \<times> nat option)" where
  "apply_event fs (Write name v indent) = fs(name \<mapsto> (v, indent))"
| "apply_event fs _ = fs"

definition output_after :: "(string \<rightharpoonup> json \<times> nat option) \<Rightarrow> event list \<Rightarrow> (string \<rightharpoonup> json \<times> nat option)" where
  "output_after fs evs = foldl apply_event fs evs"

subsection \<open>\<^verbatim>\<open>process_bank\<close>\<close>

text \<open>
  The dictionary \<open>waveforms\<close> keeps insertion order: an association list, where
  assigning to a key that is present replaces its value in place and a new key goes to
  the end (\<^const>\<open>AList.update\<close>).
\<close>

type_synonym waveforms = "(string \<times> rat list) list"

text \<open>The loop of lines 44 to 48 over the sorted glob matches.\<close>

fun process_bank_loop ::
  "string \<Rightarrow> (string \<times> node) list \<Rightarrow> waveforms \<Rightarrow> event list \<times> (error + waveforms)" where
  "process_bank_loop bank_name [] waveforms = ([], Inr waveforms)"
| "process_bank_loop bank_name ((fname, wav_file) # rest) waveforms =
     (case read_wav wav_file of
        Inl e \<Rightarrow> ([Open bank_name fname], Inl e)
      | Inr None \<Rightarrow>
          (let (evs, r) = process_bank_loop bank_name rest waveforms
           in (Open bank_name fname # evs, r))
      | Inr (Some samples) \<Rightarrow>
          (let (evs, r) =
             process_bank_loop bank_name rest (AList.update (stem fname) samples waveforms)
           in (Open bank_name fname # evs, r)))"

definition json_of_waveforms :: "waveforms \<Rightarrow> json" where
  "json_of_waveforms waveforms = JObject (map (\<lambda>(k, v). (k, JArray (map JNumber v))) waveforms)"

text \<open>
  \<open>process_bank\<close> is given the name of the bank directory and its entries (line 74 calls
  it on directories only). The result is the effects and either the exception that
  left the function or the returned value, \<open>None\<close> or the bank name.
\<close>

definition process_bank :: "string \<Rightarrow> (string \<times> node) list \<Rightarrow> event list \<times> (error + string option)" where
  "process_bank bank_name entries =
     (case process_bank_loop bank_name (sorted_paths (glob ''*.wav'' entries)) [] of
        (evs, Inl e) \<Rightarrow> (evs, Inl e)
      | (evs, Inr waveforms) \<Rightarrow>
          if waveforms \<noteq> [] then
            (evs @ [Write (bank_name @ ''.json'') (json_of_waveforms waveforms) None,
                    Print (Processed bank_name (length waveforms))],
             Inr (Some bank_name))
          else (evs, Inr None))"

subsection \<open>\<^verbatim>\<open>main\<close>\<close>

text \<open>The loop of lines 73 to 77 over the sorted glob matches of the working root.\<close>

fun main_loop :: "(string \<times> node) list \<Rightarrow> string list \<Rightarrow> event list \<times> (error + string list)" where
  "main_loop [] bank_names = ([], Inr bank_names)"
| "main_loop ((dname, bank_dir) # rest) bank_names =
     (case bank_dir of
        File _ \<Rightarrow> main_loop rest bank_names
      | Dir entries \<Rightarrow>
          (case process_bank dname entries of
             (evs, Inl e) \<Rightarrow> (evs, Inl e)
           | (evs, Inr name) \<Rightarrow>
               (let bank_names' =
                      (case name of
                         None \<Rightarrow> bank_names
                       | Some n \<Rightarrow> if n \<noteq> [] then bank_names @ [n] else bank_names);
                    (evs', r) = main_loop rest bank_names'
                in (evs @ evs', r))))"

text \<open>
  How a run ends: \<open>Finished\<close> when \<open>main\<close> returns, \<open>SysExit n\<close> for \<^verbatim>\<open>sys.exit(n)\<close>,
  \<open>Raised e\<close> when an exception reaches the top level. The interpreter turns these into
  the exit status 0, \<open>n\<close> and 1.
\<close>

datatype outcome = Finished | SysExit nat | Raised error

fun exit_status :: "outcome \<Rightarrow> nat" where
  "exit_status Finished = 0"
| "exit_status (SysExit n) = n"
| "exit_status (Raised _) = 1"

definition manifest :: "string list \<Rightarrow> json" where
  "manifest bank_names = JObject [(''banks'', JArray (map JString bank_names))]"

text \<open>
  \<open>main\<close> is given what the working root path points to: \<open>None\<close> when nothing is
  there. Writes go to the script's own directory, which is kept apart from the input
  tree.
\<close>

definition main :: "node option \<Rightarrow> event list \<times> outcome" where
  "main work_dir =
     (case work_dir of
        Some (Dir entries) \<Rightarrow>
          (let bank_dirs = sorted_paths (glob ''AKWF_*'' entries) in
           if bank_dirs = [] then ([PrintErr NoBankDirectories], SysExit 1)
           else
             (case main_loop bank_dirs [] of
                (evs, Inl e) \<Rightarrow> (evs, Raised e)
              | (evs, Inr bank_names) \<Rightarrow>
                  (evs @ [Write ''manifest.json'' (manifest bank_names) (Some 2),
                          Print (Generated (length bank_names))],
                   Finished)))
      | _ \<Rightarrow> ([PrintErr DirectoryNotFound], SysExit 1))"

subsection \<open>Reference definitions and sample inputs\<close>


text \<open>A PCM file with a complete data chunk, for the examples.\<close>

definition wav :: "nat \<Rightarrow> nat \<Rightarrow> byte list \<Rightarrow> node" where
  "wav nch nbits bs =
     File (Riff \<lparr>pcm = True, channels = nch, bits = nbits, chunksize = length bs, payload = bs\<rparr>)"

text \<open>The effects of a run that leave a trace outside it: everything but the reads.\<close>

fun is_open :: "event \<Rightarrow> bool" where
  "is_open (Open _ _) = True"
| "is_open _ = False"

definition outputs :: "event list \<Rightarrow> event list" where
  "outputs evs = filter (\<lambda>ev. \<not> is_open ev) evs"

text \<open>Whether a result is an exception.\<close>

fun raises :: "error + 'a \<Rightarrow> bool" where
  "raises (Inl _) = True"
| "raises (Inr _) = False"

text \<open>
  The output mapping of a bank directory: the dictionary \<open>waveforms\<close> at line 50, or the
  exception that ended the loop before.
\<close>

definition output_mapping :: "(string \<times> node) list \<Rightarrow> error + waveforms" where
  "output_mapping entries = snd (process_bank_loop [] (sorted_paths (glob ''*.wav'' entries)) [])"

text \<open>A glob match of the working root that is a directory with a non-empty output mapping.\<close>

fun produces_output :: "string \<times> node \<Rightarrow> bool" where
  "produces_output (dname, Dir entries) =
     (case output_mapping entries of Inl _ \<Rightarrow> False | Inr waveforms \<Rightarrow> waveforms \<noteq> [])"
| "produces_output (dname, File _) = False"

text \<open>A glob match of the working root that is a directory where a read raises.\<close>

fun bank_raises :: "string \<times> node \<Rightarrow> bool" where
  "bank_raises (dname, Dir entries) = raises (output_mapping entries)"
| "bank_raises (dname, File _) = False"

text \<open>Whether a sample file is skipped by \<open>read_wav\<close>.\<close>

definition skipped :: "string \<times> node \<Rightarrow> bool" where
  "skipped e = (read_wav (snd e) = Inr None)"

text \<open>The glob matches that are directories.\<close>

definition subdirs :: "(string \<times> node) list \<Rightarrow> (string \<times> node) list" where
  "subdirs ps = filter (\<lambda>e. is_dir (snd e)) ps"

text \<open>
  A glob match of the working root that adds nothing to the manifest without failing:
  a file, or a directory whose output mapping is empty.
\<close>

fun empty_bank :: "string \<times> node \<Rightarrow> bool" where
  "empty_bank (dname, Dir entries) = (output_mapping entries = Inr [])"
| "empty_bank (dname, File _) = True"

text \<open>
  The sample files on which the read raises, told from the file alone: those
  \<^verbatim>\<open>wave.open\<close> refuses, and the mono files with at least one frame where the bytes
  that are read for the frames, frame count times sample width or what the file still
  holds of them, are not two per frame.
\<close>

definition malformed :: "node \<Rightarrow> bool" where
  "malformed nd =
     (case wave_open nd of
        Inl _ \<Rightarrow> True
      | Inr w \<Rightarrow>
          w_nchannels w = 1 \<and> 0 < w_nframes w \<and>
          min (w_nframes w * w_sampwidth w) (length (w_data w)) \<noteq> 2 * w_nframes w)"

text \<open>Sample directory trees for the examples.\<close>

definition stereo_only :: "(string \<times> node) list" where
  "stereo_only = [(''s.wav'', wav 2 16 [1, 0, 0, 0]), (''readme.txt'', File NotWave)]"

definition sample_root :: "(string \<times> node) list" where
  "sample_root =
     [(''AKWF_b'', Dir [(''x.wav'', wav 1 16 [0, 128])]),
      (''AKWF_a'', Dir [(''y.wav'', wav 1 16 [1, 0]), (''s.wav'', wav 2 16 [1, 0, 0, 0])]),
      (''AKWF_c'', Dir stereo_only),
      (''AKWF_file'', File NotWave),
      (''other'', Dir [])]"

definition empty_root :: "(string \<times> node) list" where
  "empty_root = [(''AKWF_c'', Dir stereo_only), (''AKWF_file'', File NotWave), (''other'', Dir [])]"

definition broken_root :: "(string \<times> node) list" where
  "broken_root =
     [(''AKWF_b'', Dir [(''q.wav'', wav 1 8 [1])]),
      (''AKWF_a'', Dir [(''y.wav'', wav 1 16 [1, 0])])]"

definition raising_root :: "(string \<times> node) list" where
  "raising_root = [(''AKWF_b'', Dir [(''q.wav'', wav 1 8 [1])])]"

section \<open>Properties\<close>

subsection \<open>Decoding and rounding\<close>












text \<open>
  C8: the sample 32767 is normalised to 0.999969 and the sample -32768 to exactly
  -1.0, both as values of \<open>normalize\<close> and as what \<open>read_wav\<close> returns for a mono file
  holding the two samples (bytes FF 7F and 00 80).
\<close>

theorem normalize_boundary:
  "normalize 32767 = 999969 / 1000000 \<and> normalize (- 32768) = - 1 \<and>
   read_wav (File (Riff \<lparr>pcm = True, channels = 1, bits = 16, chunksize = 4,
     payload = [0xFF, 0x7F, 0x00, 0x80]\<rparr>)) = Inr (Some [999969 / 1000000, - 1])"
  by code_simp

subsection \<open>Glob patterns and stems\<close>

lemma glob_match_literal:
  "CHR ''*'' \<notin> set p \<Longrightarrow> glob_match p s \<longleftrightarrow> s = p"
  by (induction p s rule: glob_match.induct) auto

lemma glob_match_star_suffix:
  assumes "CHR ''*'' \<notin> set lit"
  shows "glob_match (CHR ''*'' # lit) s \<longleftrightarrow> (\<exists>p. s = p @ lit)"
proof (induction s)
  case Nil
  show ?case using assms by (simp add: glob_match_literal) auto
next
  case (Cons c cs)
  have "glob_match (CHR ''*'' # lit) (c # cs) \<longleftrightarrow> c # cs = lit \<or> (\<exists>p. cs = p @ lit)"
    using Cons assms by (simp add: glob_match_literal)
  also have "\<dots> \<longleftrightarrow> (\<exists>p. c # cs = p @ lit)"
    by (auto simp: Cons_eq_append_conv)
  finally show ?case .
qed

lemma glob_match_wav: "glob_match ''*.wav'' s \<longleftrightarrow> (\<exists>p. s = p @ ''.wav'')"
  by (rule glob_match_star_suffix) simp

lemma glob_match_AKWF_nonempty: "glob_match ''AKWF_*'' s \<Longrightarrow> s \<noteq> []"
  by auto

lemma glob_match_AKWF_not_manifest: "\<not> glob_match ''AKWF_*'' ''manifest''"
  by simp

lemma rfind_append:
  "0 \<le> rfind c s \<Longrightarrow> rfind c (p @ s) = int (length p) + rfind c s"
  by (induction p) (simp_all add: Let_def)

lemma stem_wav: "p \<noteq> [] \<Longrightarrow> stem (p @ ''.wav'') = p"
proof -
  assume "p \<noteq> []"
  have r: "rfind CHR ''.'' ''.wav'' = 0" by (simp add: Let_def)
  have "rfind CHR ''.'' (p @ ''.wav'') = int (length p)"
    using rfind_append [of "CHR ''.''" "''.wav''" p] r by simp
  then show ?thesis using \<open>p \<noteq> []\<close> by (simp add: stem_def Let_def)
qed

lemma stem_glob_wav:
  assumes "glob_match ''*.wav'' f" "f \<noteq> ''.wav''"
  shows "stem f @ ''.wav'' = f"
proof -
  from assms(1) obtain p where p: "f = p @ ''.wav''" by (auto simp: glob_match_wav)
  with assms(2) have "p \<noteq> []" by auto
  then show ?thesis by (simp add: p stem_wav)
qed

subsection \<open>The loop of \<open>process_bank\<close>\<close>

lemma snd_process_bank_loop_Cons:
  "snd (process_bank_loop bn ((f, nd) # rest) wfs) =
     (case read_wav nd of
        Inl e \<Rightarrow> Inl e
      | Inr None \<Rightarrow> snd (process_bank_loop bn rest wfs)
      | Inr (Some samples) \<Rightarrow> snd (process_bank_loop bn rest (AList.update (stem f) samples wfs)))"
  by (simp split: sum.splits option.splits prod.splits)

lemma fst_process_bank_loop_Cons:
  "fst (process_bank_loop bn ((f, nd) # rest) wfs) =
     Open bn f #
     (case read_wav nd of
        Inl e \<Rightarrow> []
      | Inr None \<Rightarrow> fst (process_bank_loop bn rest wfs)
      | Inr (Some samples) \<Rightarrow> fst (process_bank_loop bn rest (AList.update (stem f) samples wfs)))"
  by (simp split: sum.splits option.splits prod.splits)

declare process_bank_loop.simps(2) [simp del]

lemma process_bank_loop_opens:
  "ev \<in> set (fst (process_bank_loop bn files wfs)) \<Longrightarrow> \<exists>f \<in> fst ` set files. ev = Open bn f"
proof (induction files arbitrary: wfs)
  case Nil
  then show ?case by simp
next
  case (Cons e files)
  obtain f nd where e: "e = (f, nd)" by (cases e)
  from Cons.prems show ?case
    unfolding e fst_process_bank_loop_Cons
    by (auto split: sum.splits option.splits dest!: Cons.IH)
qed

lemma outputs_process_bank_loop: "outputs (fst (process_bank_loop bn files wfs)) = []"
  unfolding outputs_def filter_empty_conv
  using process_bank_loop_opens by fastforce

lemma snd_process_bank_loop_name:
  "snd (process_bank_loop bn files wfs) = snd (process_bank_loop bn' files wfs)"
proof (induction files arbitrary: wfs)
  case Nil
  then show ?case by simp
next
  case (Cons e files)
  obtain f nd where e: "e = (f, nd)" by (cases e)
  show ?case unfolding e snd_process_bank_loop_Cons
    by (simp add: Cons.IH split: sum.splits option.splits)
qed

lemma process_bank_loop_raises:
  "raises (snd (process_bank_loop bn files wfs)) \<longleftrightarrow> (\<exists>e \<in> set files. raises (read_wav (snd e)))"
proof (induction files arbitrary: wfs)
  case Nil
  then show ?case by simp
next
  case (Cons e files)
  obtain f nd where e: "e = (f, nd)" by (cases e)
  show ?case unfolding e snd_process_bank_loop_Cons
    by (simp add: Cons.IH split: sum.splits option.splits)
qed

lemma process_bank_loop_events:
  "\<not> raises (snd (process_bank_loop bn files wfs)) \<Longrightarrow>
   fst (process_bank_loop bn files wfs) = map (\<lambda>e. Open bn (fst e)) files"
proof (induction files arbitrary: wfs)
  case Nil
  then show ?case by simp
next
  case (Cons e files)
  obtain f nd where e: "e = (f, nd)" by (cases e)
  from Cons.prems show ?case unfolding e snd_process_bank_loop_Cons fst_process_bank_loop_Cons
    by (auto simp: Cons.IH split: sum.splits option.splits)
qed

lemma process_bank_loop_filter_skipped:
  "snd (process_bank_loop bn (filter (\<lambda>e. \<not> skipped e) files) wfs) =
   snd (process_bank_loop bn files wfs)"
proof (induction files arbitrary: wfs)
  case Nil
  then show ?case by simp
next
  case (Cons e files)
  obtain f nd where e: "e = (f, nd)" by (cases e)
  show ?case unfolding e
    by (simp add: snd_process_bank_loop_Cons skipped_def Cons.IH [unfolded skipped_def]
        split: sum.splits option.splits)
qed

lemma process_bank_loop_all_skipped:
  "\<forall>e \<in> set files. skipped e \<Longrightarrow> snd (process_bank_loop bn files wfs) = Inr wfs"
proof (induction files arbitrary: wfs)
  case Nil
  then show ?case by simp
next
  case (Cons e files)
  obtain f nd where e: "e = (f, nd)" by (cases e)
  from Cons.prems show ?case unfolding e
    by (simp add: snd_process_bank_loop_Cons skipped_def Cons.IH)
qed

lemma process_bank_loop_keys:
  assumes "snd (process_bank_loop bn files wfs) = Inr wfs'"
    and "distinct (map (\<lambda>e. stem (fst e)) files)"
    and "\<forall>e \<in> set files. stem (fst e) \<notin> fst ` set wfs"
  shows "map fst wfs' = map fst wfs @ map (\<lambda>e. stem (fst e)) (filter (\<lambda>e. \<not> skipped e) files)"
  using assms
proof (induction files arbitrary: wfs)
  case Nil
  then show ?case by simp
next
  case (Cons e files)
  obtain f nd where e: "e = (f, nd)" by (cases e)
  show ?case
  proof (cases "read_wav nd")
    case (Inl err)
    with Cons.prems(1) show ?thesis by (simp add: e snd_process_bank_loop_Cons)
  next
    case (Inr r)
    show ?thesis
    proof (cases r)
      case None
      with Inr Cons.prems have "map fst wfs' = map fst wfs @ map (\<lambda>e. stem (fst e)) (filter (\<lambda>e. \<not> skipped e) files)"
        by (intro Cons.IH) (simp_all add: e snd_process_bank_loop_Cons)
      with Inr None show ?thesis by (simp add: e skipped_def)
    next
      case (Some samples)
      let ?wfs = "AList.update (stem f) samples wfs"
      have k: "map fst ?wfs = map fst wfs @ [stem f]"
        using Cons.prems(3) by (simp add: e update_keys image_iff)
      have "map fst wfs' = map fst ?wfs @ map (\<lambda>e. stem (fst e)) (filter (\<lambda>e. \<not> skipped e) files)"
      proof (rule Cons.IH)
        show "snd (process_bank_loop bn files ?wfs) = Inr wfs'"
          using Cons.prems(1) Inr Some by (simp add: e snd_process_bank_loop_Cons)
        show "distinct (map (\<lambda>e. stem (fst e)) files)"
          using Cons.prems(2) by simp
        show "\<forall>e\<in>set files. stem (fst e) \<notin> fst ` set ?wfs"
        proof
          fix x assume x: "x \<in> set files"
          have "fst ` set ?wfs = set (map fst ?wfs)" by simp
          also have "\<dots> = fst ` set wfs \<union> {stem f}" unfolding k by auto
          finally have u: "fst ` set ?wfs = fst ` set wfs \<union> {stem f}" .
          from x have "stem (fst x) \<in> (\<lambda>e. stem (fst e)) ` set files" by (rule imageI)
          moreover from Cons.prems(2) have "stem f \<notin> (\<lambda>e. stem (fst e)) ` set files"
            by (simp add: e)
          ultimately have "stem (fst x) \<noteq> stem f" by metis
          moreover from Cons.prems(3) x have "stem (fst x) \<notin> fst ` set wfs" by simp
          ultimately show "stem (fst x) \<notin> fst ` set ?wfs" unfolding u by simp
        qed
      qed
      with Inr Some show ?thesis by (simp add: e skipped_def k)
    qed
  qed
qed

subsection \<open>\<open>process_bank\<close> and the output mapping\<close>

lemma output_mapping_loop:
  "snd (process_bank_loop bn (sorted_paths (glob ''*.wav'' es)) []) = output_mapping es"
  unfolding output_mapping_def by (rule snd_process_bank_loop_name)

lemma snd_process_bank:
  "snd (process_bank bn es) =
     (case output_mapping es of
        Inl e \<Rightarrow> Inl e
      | Inr wfs \<Rightarrow> if wfs \<noteq> [] then Inr (Some bn) else Inr None)"
  unfolding process_bank_def output_mapping_loop [of bn es, symmetric]
  by (simp split: prod.splits sum.splits)

lemma outputs_process_bank:
  "outputs (fst (process_bank bn es)) =
     (case output_mapping es of
        Inl e \<Rightarrow> []
      | Inr wfs \<Rightarrow>
          if wfs \<noteq> [] then
            [Write (bn @ ''.json'') (json_of_waveforms wfs) None, Print (Processed bn (length wfs))]
          else [])"
proof -
  obtain evs r where l: "process_bank_loop bn (sorted_paths (glob ''*.wav'' es)) [] = (evs, r)"
    by (cases "process_bank_loop bn (sorted_paths (glob ''*.wav'' es)) []")
  have o: "outputs evs = []"
    using outputs_process_bank_loop [of bn "sorted_paths (glob ''*.wav'' es)" "[]"] l by simp
  have r: "output_mapping es = r"
    using output_mapping_loop [of bn es] l by simp
  show ?thesis
    unfolding process_bank_def l r using o
    by (simp add: outputs_def split: sum.splits)
qed

lemma opens_process_bank:
  assumes "Open b f \<in> set (fst (process_bank bn es))"
  shows "b = bn \<and> glob_match ''*.wav'' f \<and> f \<in> fst ` set es"
proof -
  obtain evs r where l: "process_bank_loop bn (sorted_paths (glob ''*.wav'' es)) [] = (evs, r)"
    by (cases "process_bank_loop bn (sorted_paths (glob ''*.wav'' es)) []")
  from assms have "Open b f \<in> set evs"
    unfolding process_bank_def l by (auto split: sum.splits if_splits)
  then have "\<exists>g \<in> fst ` set (sorted_paths (glob ''*.wav'' es)). Open b f = Open bn g"
    using process_bank_loop_opens [of "Open b f" bn "sorted_paths (glob ''*.wav'' es)" "[]"] l
    by simp
  then show ?thesis by (auto simp: sorted_paths_def glob_def)
qed

lemma opens_process_bank_ok:
  assumes "\<not> raises (output_mapping es)"
  shows "filter is_open (fst (process_bank bn es)) =
         map (\<lambda>e. Open bn (fst e)) (sorted_paths (glob ''*.wav'' es))"
proof -
  obtain evs r where l: "process_bank_loop bn (sorted_paths (glob ''*.wav'' es)) [] = (evs, r)"
    by (cases "process_bank_loop bn (sorted_paths (glob ''*.wav'' es)) []")
  have r: "output_mapping es = r"
    using output_mapping_loop [of bn es] l by simp
  have "evs = map (\<lambda>e. Open bn (fst e)) (sorted_paths (glob ''*.wav'' es))"
    using process_bank_loop_events [of bn "sorted_paths (glob ''*.wav'' es)" "[]"] l assms r
    by simp
  moreover have "filter is_open (map (\<lambda>e. Open bn (fst e)) xs) = map (\<lambda>e. Open bn (fst e)) xs" for xs :: "(string \<times> node) list"
    by (induction xs) simp_all
  ultimately show ?thesis
    unfolding process_bank_def l using assms r
    by (auto split: sum.splits)
qed

lemma output_mapping_filter_skipped:
  "output_mapping (filter (\<lambda>e. \<not> skipped e) es) = output_mapping es"
proof -
  have "sorted_paths (glob ''*.wav'' (filter (\<lambda>e. \<not> skipped e) es)) =
        filter (\<lambda>e. \<not> skipped e) (sorted_paths (glob ''*.wav'' es))"
    unfolding sorted_paths_def glob_def by (simp add: filter_sort conj_commute)
  then show ?thesis
    unfolding output_mapping_def by (simp add: process_bank_loop_filter_skipped)
qed

lemma output_mapping_all_skipped:
  "\<forall>e \<in> set (glob ''*.wav'' es). skipped e \<Longrightarrow> output_mapping es = Inr []"
  unfolding output_mapping_def
  by (rule process_bank_loop_all_skipped) (simp add: sorted_paths_def)

lemma output_mapping_raises:
  "raises (output_mapping es) \<longleftrightarrow> (\<exists>e \<in> set (glob ''*.wav'' es). raises (read_wav (snd e)))"
  unfolding output_mapping_def by (simp add: process_bank_loop_raises sorted_paths_def)

lemma read_wav_not_mono:
  "wave_open nd = Inr w \<Longrightarrow> w_nchannels w \<noteq> 1 \<Longrightarrow> read_wav nd = Inr None"
  by (simp add: read_wav_def)

text \<open>
  C2: a file whose channel count is not 1 makes \<open>read_wav\<close> return \<open>None\<close>, no exception,
  and it adds no key: the output mapping, the returned value and the written file and
  printed line of \<open>process_bank\<close> are those of the directory without the file.
\<close>

theorem not_mono_skipped:
  assumes "wave_open nd = Inr w" and "w_nchannels w \<noteq> 1"
  shows "read_wav nd = Inr None \<and>
         output_mapping (before @ (f, nd) # after) = output_mapping (before @ after) \<and>
         snd (process_bank bn (before @ (f, nd) # after)) = snd (process_bank bn (before @ after)) \<and>
         outputs (fst (process_bank bn (before @ (f, nd) # after))) =
           outputs (fst (process_bank bn (before @ after)))"
proof -
  have skip: "read_wav nd = Inr None"
    using assms by (rule read_wav_not_mono)
  then have "filter (\<lambda>e. \<not> skipped e) (before @ (f, nd) # after) =
             filter (\<lambda>e. \<not> skipped e) (before @ after)"
    by (simp add: skipped_def)
  then have "output_mapping (filter (\<lambda>e. \<not> skipped e) (before @ (f, nd) # after)) =
             output_mapping (filter (\<lambda>e. \<not> skipped e) (before @ after))"
    by simp
  then have m: "output_mapping (before @ (f, nd) # after) = output_mapping (before @ after)"
    by (simp only: output_mapping_filter_skipped)
  show ?thesis
    using skip m by (simp add: snd_process_bank outputs_process_bank)
qed

theorem not_mono_skipped_witness:
  "read_wav (wav 2 16 [1, 2, 3, 4]) = Inr None \<and>
   output_mapping ([] @ (''b.wav'', wav 2 16 [1, 2, 3, 4]) # [(''a.wav'', wav 1 16 [0, 128])]) =
     Inr [(''a'', [- 1])] \<and>
   snd (process_bank ''AKWF_t'' ([] @ (''b.wav'', wav 2 16 [1, 2, 3, 4]) # [(''a.wav'', wav 1 16 [0, 128])])) =
     Inr (Some ''AKWF_t'') \<and>
   outputs (fst (process_bank ''AKWF_t'' ([] @ (''b.wav'', wav 2 16 [1, 2, 3, 4]) # [(''a.wav'', wav 1 16 [0, 128])]))) =
     [Write ''AKWF_t.json'' (JObject [(''a'', JArray [JNumber (- 1)])]) None,
      Print (Processed ''AKWF_t'' 1)]"
proof -
  have o: "wave_open (wav 2 16 [1, 2, 3, 4]) =
      Inr \<lparr>w_nchannels = 2, w_sampwidth = 2, w_framesize = 4, w_nframes = 1,
           w_chunksize = 4, w_data = [1, 2, 3, 4]\<rparr>"
    by (simp add: wave_open_def wav_def)
  have a: "output_mapping ([] @ [(''a.wav'', wav 1 16 [0, 128])]) = Inr [(''a'', [- 1])]"
    by code_simp
  have b: "snd (process_bank ''AKWF_t'' ([] @ [(''a.wav'', wav 1 16 [0, 128])])) = Inr (Some ''AKWF_t'')"
    by code_simp
  have c: "outputs (fst (process_bank ''AKWF_t'' ([] @ [(''a.wav'', wav 1 16 [0, 128])]))) =
     [Write ''AKWF_t.json'' (JObject [(''a'', JArray [JNumber (- 1)])]) None,
      Print (Processed ''AKWF_t'' 1)]"
    by code_simp
  show ?thesis
    using not_mono_skipped [OF o, of "[]" "''b.wav''" "[(''a.wav'', wav 1 16 [0, 128])]" "''AKWF_t''"]
    by (simp only: a b c) simp
qed

text \<open>
  C9: a file whose name does not match \<^verbatim>\<open>*.wav\<close> is never opened, whatever it holds, and
  \<open>process_bank\<close> does what it does on the directory without the file; every file that is
  opened has a name matching \<^verbatim>\<open>*.wav\<close>.
\<close>

theorem only_wav_names_read:
  assumes "\<not> glob_match ''*.wav'' g"
  shows "process_bank bn (before @ (g, nd) # after) = process_bank bn (before @ after) \<and>
         Open bn g \<notin> set (fst (process_bank bn (before @ (g, nd) # after))) \<and>
         (\<forall>b f. Open b f \<in> set (fst (process_bank bn es)) \<longrightarrow> glob_match ''*.wav'' f)"
proof -
  have "glob ''*.wav'' (before @ (g, nd) # after) = glob ''*.wav'' (before @ after)"
    using assms by (simp add: glob_def)
  then have "process_bank bn (before @ (g, nd) # after) = process_bank bn (before @ after)"
    by (simp add: process_bank_def)
  moreover have "Open bn g \<notin> set (fst (process_bank bn (before @ (g, nd) # after)))"
    using assms opens_process_bank by blast
  moreover have "\<forall>b f. Open b f \<in> set (fst (process_bank bn es)) \<longrightarrow> glob_match ''*.wav'' f"
    using opens_process_bank by blast
  ultimately show ?thesis by simp
qed

theorem only_wav_names_read_witness:
  "\<not> glob_match ''*.wav'' ''c.WAV'' \<and>
   process_bank ''AKWF_t'' ([(''a.wav'', wav 1 16 [0, 128])] @ (''c.WAV'', wav 1 16 [1, 0]) # []) =
     ([Open ''AKWF_t'' ''a.wav'',
       Write ''AKWF_t.json'' (JObject [(''a'', JArray [JNumber (- 1)])]) None,
       Print (Processed ''AKWF_t'' 1)], Inr (Some ''AKWF_t'')) \<and>
   Open ''AKWF_t'' ''c.WAV'' \<notin>
     set (fst (process_bank ''AKWF_t'' ([(''a.wav'', wav 1 16 [0, 128])] @ (''c.WAV'', wav 1 16 [1, 0]) # [])))"
proof -
  have n: "\<not> glob_match ''*.wav'' ''c.WAV''" by simp
  have a: "process_bank ''AKWF_t'' ([(''a.wav'', wav 1 16 [0, 128])] @ []) =
     ([Open ''AKWF_t'' ''a.wav'',
       Write ''AKWF_t.json'' (JObject [(''a'', JArray [JNumber (- 1)])]) None,
       Print (Processed ''AKWF_t'' 1)], Inr (Some ''AKWF_t''))"
    by code_simp
  show ?thesis
    using only_wav_names_read [OF n, of "''AKWF_t''" "[(''a.wav'', wav 1 16 [0, 128])]" "wav 1 16 [1, 0]" "[]" "[]"] n
    by (simp only: a) simp
qed

subsection \<open>The loop of \<open>main\<close>\<close>

lemma writes_process_bank:
  assumes "Write name v ind \<in> set (fst (process_bank bn es))"
  shows "name = bn @ ''.json''"
proof -
  obtain evs r where l: "process_bank_loop bn (sorted_paths (glob ''*.wav'' es)) [] = (evs, r)"
    by (cases "process_bank_loop bn (sorted_paths (glob ''*.wav'' es)) []")
  have "Write name v ind \<notin> set evs"
    using process_bank_loop_opens [of "Write name v ind" bn "sorted_paths (glob ''*.wav'' es)" "[]"] l
    by auto
  with assms show ?thesis
    unfolding process_bank_def l by (auto split: sum.splits if_splits)
qed

lemma snd_main_loop_Cons:
  "snd (main_loop ((n, nd) # rest) acc) =
     (case nd of
        File _ \<Rightarrow> snd (main_loop rest acc)
      | Dir es \<Rightarrow>
          (case output_mapping es of
             Inl e \<Rightarrow> Inl e
           | Inr wfs \<Rightarrow>
               snd (main_loop rest (if wfs \<noteq> [] \<and> n \<noteq> [] then acc @ [n] else acc))))"
proof (cases nd)
  case (File c)
  then show ?thesis by simp
next
  case (Dir es)
  obtain evs r where p: "process_bank n es = (evs, r)" by (cases "process_bank n es")
  have r: "r = (case output_mapping es of
        Inl e \<Rightarrow> Inl e
      | Inr wfs \<Rightarrow> if wfs \<noteq> [] then Inr (Some n) else Inr None)"
    using snd_process_bank [of n es] p by simp
  show ?thesis
    unfolding Dir by (simp add: p r split: sum.splits prod.splits)
qed

lemma fst_main_loop_Cons:
  "fst (main_loop ((n, nd) # rest) acc) =
     (case nd of
        File _ \<Rightarrow> fst (main_loop rest acc)
      | Dir es \<Rightarrow>
          fst (process_bank n es) @
          (case output_mapping es of
             Inl e \<Rightarrow> []
           | Inr wfs \<Rightarrow>
               fst (main_loop rest (if wfs \<noteq> [] \<and> n \<noteq> [] then acc @ [n] else acc))))"
proof (cases nd)
  case (File c)
  then show ?thesis by simp
next
  case (Dir es)
  obtain evs r where p: "process_bank n es = (evs, r)" by (cases "process_bank n es")
  have r: "r = (case output_mapping es of
        Inl e \<Rightarrow> Inl e
      | Inr wfs \<Rightarrow> if wfs \<noteq> [] then Inr (Some n) else Inr None)"
    using snd_process_bank [of n es] p by simp
  show ?thesis
    unfolding Dir by (simp add: p r split: sum.splits prod.splits)
qed

declare main_loop.simps(2) [simp del]

lemma main_loop_raises:
  "raises (snd (main_loop dirs acc)) \<longleftrightarrow> (\<exists>e \<in> set dirs. bank_raises e)"
proof (induction dirs arbitrary: acc)
  case Nil
  then show ?case by simp
next
  case (Cons d dirs)
  obtain n nd where d: "d = (n, nd)" by (cases d)
  show ?case unfolding d snd_main_loop_Cons
    by (cases nd) (simp_all add: Cons.IH split: sum.splits)
qed

lemma main_loop_names:
  assumes "\<forall>e \<in> set dirs. \<not> bank_raises e" and "\<forall>e \<in> set dirs. fst e \<noteq> []"
  shows "snd (main_loop dirs acc) = Inr (acc @ map fst (filter produces_output dirs))"
  using assms
proof (induction dirs arbitrary: acc)
  case Nil
  then show ?case by simp
next
  case (Cons d dirs)
  obtain n nd where d: "d = (n, nd)" by (cases d)
  from Cons.prems have rest: "\<forall>e \<in> set dirs. \<not> bank_raises e" "\<forall>e \<in> set dirs. fst e \<noteq> []"
    and n: "n \<noteq> []" and nr: "\<not> bank_raises (n, nd)"
    by (simp_all add: d)
  show ?case
  proof (cases nd)
    case (File c)
    then show ?thesis
      unfolding d snd_main_loop_Cons by (simp add: Cons.IH [OF rest])
  next
    case (Dir es)
    with nr obtain wfs where m: "output_mapping es = Inr wfs"
      by (cases "output_mapping es") simp_all
    show ?thesis
      unfolding d snd_main_loop_Cons Dir
      by (simp add: m n Cons.IH [OF rest])
  qed
qed

lemma main_loop_writes:
  "Write name v ind \<in> set (fst (main_loop dirs acc)) \<Longrightarrow>
   \<exists>n \<in> fst ` set dirs. name = n @ ''.json''"
proof (induction dirs arbitrary: acc)
  case Nil
  then show ?case by simp
next
  case (Cons d dirs)
  obtain n nd where d: "d = (n, nd)" by (cases d)
  show ?case
  proof (cases nd)
    case (File c)
    with Cons.prems have "Write name v ind \<in> set (fst (main_loop dirs acc))"
      by (simp add: d fst_main_loop_Cons)
    from Cons.IH [OF this] show ?thesis by auto
  next
    case (Dir es)
    from Cons.prems consider
        "Write name v ind \<in> set (fst (process_bank n es))"
      | acc' where "Write name v ind \<in> set (fst (main_loop dirs acc'))"
      unfolding d Dir fst_main_loop_Cons by (auto split: sum.splits)
    then show ?thesis
    proof cases
      case 1
      then have "name = n @ ''.json''" by (rule writes_process_bank)
      then show ?thesis by (simp add: d)
    next
      case 2
      from Cons.IH [OF this] show ?thesis by auto
    qed
  qed
qed

lemma json_name_manifest:
  assumes "n @ ''.json'' = ''manifest.json''"
  shows "n = ''manifest''"
proof -
  have "''manifest.json'' = ''manifest'' @ ''.json''" by simp
  with assms have "n @ ''.json'' = ''manifest'' @ ''.json''" by (rule trans)
  then show ?thesis by (simp only: append_same_eq)
qed

lemma main_loop_no_manifest:
  assumes "\<forall>e \<in> set dirs. glob_match ''AKWF_*'' (fst e)"
  shows "Write ''manifest.json'' v ind \<notin> set (fst (main_loop dirs acc))"
proof
  assume "Write ''manifest.json'' v ind \<in> set (fst (main_loop dirs acc))"
  then have "\<exists>n \<in> fst ` set dirs. ''manifest.json'' = n @ ''.json''"
    by (rule main_loop_writes)
  then obtain n where n: "n \<in> fst ` set dirs" and eq: "''manifest.json'' = n @ ''.json''"
    by (rule bexE)
  from eq [symmetric] have m: "n = ''manifest''" by (rule json_name_manifest)
  from n obtain e where e: "e \<in> set dirs" and f: "fst e = n" by (rule imageE) simp
  from assms e have "glob_match ''AKWF_*'' (fst e)" by (rule bspec)
  then have "glob_match ''AKWF_*'' ''manifest''" by (simp only: f m)
  then show False by (simp only: glob_match_AKWF_not_manifest)
qed

lemma main_loop_empty_banks:
  assumes "\<forall>e \<in> set dirs. empty_bank e"
  shows "snd (main_loop dirs acc) = Inr acc \<and> outputs (fst (main_loop dirs acc)) = []"
  using assms
proof (induction dirs arbitrary: acc)
  case Nil
  then show ?case by (simp add: outputs_def)
next
  case (Cons d dirs)
  obtain n nd where d: "d = (n, nd)" by (cases d)
  from Cons.prems have rest: "\<forall>e \<in> set dirs. empty_bank e" and e: "empty_bank (n, nd)"
    by (simp_all add: d)
  show ?case
  proof (cases nd)
    case (File c)
    then show ?thesis
      unfolding d snd_main_loop_Cons fst_main_loop_Cons by (simp add: Cons.IH [OF rest])
  next
    case (Dir es)
    with e have m: "output_mapping es = Inr []" by simp
    have o: "outputs (fst (process_bank n es)) = []"
      by (simp add: outputs_process_bank m)
    have "outputs (fst (process_bank n es) @ fst (main_loop dirs acc)) = []"
      using o Cons.IH [OF rest, of acc] by (simp add: outputs_def)
    then show ?thesis
      unfolding d snd_main_loop_Cons fst_main_loop_Cons Dir
      by (simp add: m Cons.IH [OF rest])
  qed
qed

lemma sorted_paths_Nil: "sorted_paths ps = [] \<longleftrightarrow> ps = []"
  by (metis length_0_conv length_sort sorted_paths_def)

lemma set_sorted_paths: "set (sorted_paths ps) = set ps"
  by (simp add: sorted_paths_def)

lemma glob_AKWF_names:
  "\<forall>e \<in> set (sorted_paths (glob ''AKWF_*'' rt)). glob_match ''AKWF_*'' (fst e) \<and> fst e \<noteq> []"
proof
  fix e assume "e \<in> set (sorted_paths (glob ''AKWF_*'' rt))"
  then have m: "glob_match ''AKWF_*'' (fst e)"
    by (simp only: set_sorted_paths glob_def set_filter mem_Collect_eq)
  then have "fst e \<noteq> []" by (rule glob_match_AKWF_nonempty)
  with m show "glob_match ''AKWF_*'' (fst e) \<and> fst e \<noteq> []" by (rule conjI)
qed

subsection \<open>\<open>main\<close>\<close>

lemma main_not_dir:
  "\<forall>rt. work_dir \<noteq> Some (Dir rt) \<Longrightarrow> main work_dir = ([PrintErr DirectoryNotFound], SysExit 1)"
  unfolding main_def by (auto split: option.splits node.splits)

lemma main_no_match:
  "glob ''AKWF_*'' rt = [] \<Longrightarrow> main (Some (Dir rt)) = ([PrintErr NoBankDirectories], SysExit 1)"
  unfolding main_def by (simp add: sorted_paths_Nil)

lemma main_Dir:
  "main (Some (Dir rt)) =
     (if sorted_paths (glob ''AKWF_*'' rt) = [] then ([PrintErr NoBankDirectories], SysExit 1)
      else
        (case main_loop (sorted_paths (glob ''AKWF_*'' rt)) [] of
           (evs, Inl e) \<Rightarrow> (evs, Raised e)
         | (evs, Inr bank_names) \<Rightarrow>
             (evs @ [Write ''manifest.json'' (manifest bank_names) (Some 2),
                     Print (Generated (length bank_names))],
              Finished)))"
  unfolding main_def by (simp add: Let_def)

lemma main_ok:
  assumes "glob ''AKWF_*'' rt \<noteq> []" and "\<forall>e \<in> set (glob ''AKWF_*'' rt). \<not> bank_raises e"
  shows "main (Some (Dir rt)) =
    (fst (main_loop (sorted_paths (glob ''AKWF_*'' rt)) []) @
       [Write ''manifest.json''
          (manifest (map fst (filter produces_output (sorted_paths (glob ''AKWF_*'' rt))))) (Some 2),
        Print (Generated (length (map fst (filter produces_output (sorted_paths (glob ''AKWF_*'' rt))))))],
     Finished)"
proof -
  define dirs where "dirs = sorted_paths (glob ''AKWF_*'' rt)"
  have ne: "dirs \<noteq> []" using assms(1) by (simp add: dirs_def sorted_paths_Nil)
  have nr: "\<forall>e \<in> set dirs. \<not> bank_raises e"
    using assms(2) by (simp add: dirs_def set_sorted_paths)
  have nm: "\<forall>e \<in> set dirs. fst e \<noteq> []"
    using glob_AKWF_names [of rt] by (simp add: dirs_def)
  have s: "snd (main_loop dirs []) = Inr (map fst (filter produces_output dirs))"
    using main_loop_names [OF nr nm, of "[]"] by simp
  obtain evs r where ml: "main_loop dirs [] = (evs, r)" by (cases "main_loop dirs []")
  with s have r: "r = Inr (map fst (filter produces_output dirs))" by simp
  show ?thesis
    unfolding main_Dir dirs_def [symmetric] using ne by (simp add: ml r)
qed

lemma main_raise:
  assumes "\<exists>e \<in> set (glob ''AKWF_*'' rt). bank_raises e"
  shows "\<exists>e. main (Some (Dir rt)) = (fst (main_loop (sorted_paths (glob ''AKWF_*'' rt)) []), Raised e)"
proof -
  define dirs where "dirs = sorted_paths (glob ''AKWF_*'' rt)"
  from assms have ex: "\<exists>e \<in> set dirs. bank_raises e"
    by (simp add: dirs_def set_sorted_paths)
  then have ne: "dirs \<noteq> []" by auto
  have "raises (snd (main_loop dirs []))"
    using ex by (simp add: main_loop_raises)
  then obtain evs e where ml: "main_loop dirs [] = (evs, Inl e)"
    by (cases "main_loop dirs []"; cases "snd (main_loop dirs [])") auto
  show ?thesis
    unfolding main_Dir dirs_def [symmetric] using ne by (simp add: ml)
qed

lemma main_Finished:
  assumes "snd (main (Some (Dir rt))) = Finished"
  shows "glob ''AKWF_*'' rt \<noteq> [] \<and> (\<forall>e \<in> set (glob ''AKWF_*'' rt). \<not> bank_raises e)"
proof (intro conjI notI)
  assume "glob ''AKWF_*'' rt = []"
  then have "main (Some (Dir rt)) = ([PrintErr NoBankDirectories], SysExit 1)"
    by (rule main_no_match)
  with assms show False by simp
next
  show "\<forall>e \<in> set (glob ''AKWF_*'' rt). \<not> bank_raises e"
  proof (rule ccontr)
    assume "\<not> (\<forall>e \<in> set (glob ''AKWF_*'' rt). \<not> bank_raises e)"
    then have "\<exists>e \<in> set (glob ''AKWF_*'' rt). bank_raises e" by simp
    from main_raise [OF this] obtain e where "snd (main (Some (Dir rt))) = Raised e" by auto
    with assms show False by simp
  qed
qed

lemma output_after_last_write:
  "output_after fs (evs0 @ [Write name v ind, Print l]) name = Some (v, ind)"
  by (simp add: output_after_def)

text \<open>
  C4: when the run completes, the last file written is \<^verbatim>\<open>manifest.json\<close>, with indent 2,
  holding the object with the single field \<^verbatim>\<open>banks\<close>: the names of the glob matches that
  are directories with a non-empty output mapping, in the sorted order they were
  processed in. Whatever the output directory held before, it then holds this manifest.
\<close>

theorem manifest_written:
  assumes "main (Some (Dir rt)) = (evs, Finished)"
  shows "(\<exists>evs0. evs = evs0 @
            [Write ''manifest.json''
               (JObject [(''banks'', JArray (map JString
                  (map fst (filter produces_output (sorted_paths (glob ''AKWF_*'' rt))))))])
               (Some 2),
             Print (Generated (length
                  (map fst (filter produces_output (sorted_paths (glob ''AKWF_*'' rt))))))]) \<and>
         sorted (map fst (filter produces_output (sorted_paths (glob ''AKWF_*'' rt)))) \<and>
         output_after fs evs ''manifest.json'' =
           Some (JObject [(''banks'', JArray (map JString
                  (map fst (filter produces_output (sorted_paths (glob ''AKWF_*'' rt))))))],
                 Some 2)"
proof -
  define banks where "banks = map fst (filter produces_output (sorted_paths (glob ''AKWF_*'' rt)))"
  define mname where "mname = ''manifest.json''"
  from assms have "snd (main (Some (Dir rt))) = Finished" by simp
  then have "glob ''AKWF_*'' rt \<noteq> []" and "\<forall>e \<in> set (glob ''AKWF_*'' rt). \<not> bank_raises e"
    using main_Finished by blast+
  then have "main (Some (Dir rt)) =
    (fst (main_loop (sorted_paths (glob ''AKWF_*'' rt)) []) @
       [Write mname (manifest banks) (Some 2), Print (Generated (length banks))], Finished)"
    unfolding banks_def mname_def by (rule main_ok)
  with assms have evs: "evs = fst (main_loop (sorted_paths (glob ''AKWF_*'' rt)) []) @
       [Write mname (manifest banks) (Some 2), Print (Generated (length banks))]"
    by simp
  have "sorted (map fst (sorted_paths (glob ''AKWF_*'' rt)))"
    by (simp add: sorted_paths_def)
  then have srt: "sorted banks"
    unfolding banks_def by (rule sorted_filter)
  have out: "output_after fs evs mname = Some (manifest banks, Some 2)"
    unfolding evs by (rule output_after_last_write)
  have m: "manifest banks = JObject [(''banks'', JArray (map JString banks))]"
    by (simp add: manifest_def)
  show ?thesis
    using evs srt out unfolding m banks_def [symmetric] mname_def [symmetric] by blast
qed

theorem manifest_written_witness:
  "main (Some (Dir sample_root)) =
     ([Open ''AKWF_a'' ''s.wav'', Open ''AKWF_a'' ''y.wav'',
       Write ''AKWF_a.json'' (JObject [(''y'', JArray [JNumber (31 / 1000000)])]) None,
       Print (Processed ''AKWF_a'' 1),
       Open ''AKWF_b'' ''x.wav'',
       Write ''AKWF_b.json'' (JObject [(''x'', JArray [JNumber (- 1)])]) None,
       Print (Processed ''AKWF_b'' 1),
       Open ''AKWF_c'' ''s.wav'',
       Write ''manifest.json''
         (JObject [(''banks'', JArray [JString ''AKWF_a'', JString ''AKWF_b''])]) (Some 2),
       Print (Generated 2)],
      Finished) \<and>
   output_after [''manifest.json'' \<mapsto> (JObject [], None)]
      (fst (main (Some (Dir sample_root)))) ''manifest.json'' =
     Some (JObject [(''banks'', JArray [JString ''AKWF_a'', JString ''AKWF_b''])], Some 2)"
proof -
  have b: "map fst (filter produces_output (sorted_paths (glob ''AKWF_*'' sample_root))) =
      [''AKWF_a'', ''AKWF_b'']"
    by code_simp
  have m: "main (Some (Dir sample_root)) =
     ([Open ''AKWF_a'' ''s.wav'', Open ''AKWF_a'' ''y.wav'',
       Write ''AKWF_a.json'' (JObject [(''y'', JArray [JNumber (31 / 1000000)])]) None,
       Print (Processed ''AKWF_a'' 1),
       Open ''AKWF_b'' ''x.wav'',
       Write ''AKWF_b.json'' (JObject [(''x'', JArray [JNumber (- 1)])]) None,
       Print (Processed ''AKWF_b'' 1),
       Open ''AKWF_c'' ''s.wav'',
       Write ''manifest.json''
         (JObject [(''banks'', JArray [JString ''AKWF_a'', JString ''AKWF_b''])]) (Some 2),
       Print (Generated 2)],
      Finished)"
    by code_simp
  have f: "main (Some (Dir sample_root)) = (fst (main (Some (Dir sample_root))), Finished)"
    by (simp only: m fst_conv)
  have "output_after [''manifest.json'' \<mapsto> (JObject [], None)]
      (fst (main (Some (Dir sample_root)))) ''manifest.json'' =
     Some (JObject [(''banks'', JArray (map JString
        (map fst (filter produces_output (sorted_paths (glob ''AKWF_*'' sample_root))))))], Some 2)"
    using manifest_written [OF f] by (rule conjunct2 [THEN conjunct2])
  then have "output_after [''manifest.json'' \<mapsto> (JObject [], None)]
      (fst (main (Some (Dir sample_root)))) ''manifest.json'' =
     Some (JObject [(''banks'', JArray [JString ''AKWF_a'', JString ''AKWF_b''])], Some 2)"
    by (simp only: b list.map)
  with m show ?thesis by (rule conjI)
qed

lemma manifest_inject: "manifest xs = manifest ys \<Longrightarrow> xs = ys"
proof -
  assume "manifest xs = manifest ys"
  then have "map JString xs = map JString ys" by (simp add: manifest_def)
  moreover have "inj JString" by (rule injI) simp
  ultimately show "xs = ys" by (simp add: inj_map_eq_map)
qed

lemma main_manifest_names:
  assumes "Write ''manifest.json'' (manifest names) ind \<in> set (fst (main (Some (Dir rt))))"
  shows "names = map fst (filter produces_output (sorted_paths (glob ''AKWF_*'' rt)))"
proof -
  define dirs where "dirs = sorted_paths (glob ''AKWF_*'' rt)"
  define mname where "mname = ''manifest.json''"
  have nm: "\<forall>e \<in> set dirs. glob_match ''AKWF_*'' (fst e)" and ne: "\<forall>e \<in> set dirs. fst e \<noteq> []"
    using glob_AKWF_names [of rt] by (simp_all add: dirs_def)
  have no: "Write mname v i \<notin> set (fst (main_loop dirs acc))" for v i acc
    unfolding mname_def using nm by (rule main_loop_no_manifest)
  obtain evs r where ml: "main_loop dirs [] = (evs, r)" by (cases "main_loop dirs []")
  have noe: "Write mname v i \<notin> set evs" for v i
    using no [of v i "[]"] ml by simp
  have m: "main (Some (Dir rt)) =
     (if dirs = [] then ([PrintErr NoBankDirectories], SysExit 1)
      else
        (case r of
           Inl e \<Rightarrow> (evs, Raised e)
         | Inr bank_names \<Rightarrow>
             (evs @ [Write mname (manifest bank_names) (Some 2),
                     Print (Generated (length bank_names))],
              Finished)))"
    unfolding main_Dir dirs_def [symmetric] mname_def by (simp add: ml split: sum.splits)
  from assms have a: "Write mname (manifest names) ind \<in> set (fst (main (Some (Dir rt))))"
    by (simp only: mname_def)
  show ?thesis
  proof (cases r)
    case (Inl e)
    with a m noe show ?thesis by (auto split: if_splits)
  next
    case (Inr bank_names)
    with a m noe have "dirs \<noteq> []" and "manifest names = manifest bank_names"
      by (auto split: if_splits)
    then have n: "names = bank_names" using manifest_inject by blast
    have "\<not> raises (snd (main_loop dirs []))" using ml Inr by simp
    then have "\<forall>e \<in> set dirs. \<not> bank_raises e" by (simp add: main_loop_raises)
    from main_loop_names [OF this ne, of "[]"] have "bank_names = map fst (filter produces_output dirs)"
      using ml Inr by simp
    with n show ?thesis by (simp add: dirs_def)
  qed
qed

text \<open>
  C3: for a bank directory where every file matching \<^verbatim>\<open>*.wav\<close> is skipped (there may be
  none), the output mapping is empty, \<open>process_bank\<close> writes nothing, prints nothing and
  returns \<open>None\<close>, and in a working root where the bank's name stands for this directory
  the name is not in the \<^verbatim>\<open>banks\<close> list of the manifest that \<open>main\<close> writes.
\<close>

theorem empty_bank_no_output:
  assumes "\<forall>e \<in> set (glob ''*.wav'' es). skipped e"
  shows "output_mapping es = Inr [] \<and>
         snd (process_bank bn es) = Inr None \<and>
         outputs (fst (process_bank bn es)) = [] \<and>
         (\<forall>rt names ind.
            (\<forall>nd. (bn, nd) \<in> set rt \<longrightarrow> nd = Dir es) \<longrightarrow>
            Write ''manifest.json'' (manifest names) ind \<in> set (fst (main (Some (Dir rt)))) \<longrightarrow>
            bn \<notin> set names)"
proof -
  have m: "output_mapping es = Inr []"
    using assms by (rule output_mapping_all_skipped)
  have r: "snd (process_bank bn es) = Inr None"
    by (simp add: snd_process_bank m)
  have o: "outputs (fst (process_bank bn es)) = []"
    by (simp add: outputs_process_bank m)
  have x: "bn \<notin> set names"
    if only: "\<forall>nd. (bn, nd) \<in> set rt \<longrightarrow> nd = Dir es"
      and w: "Write ''manifest.json'' (manifest names) ind \<in> set (fst (main (Some (Dir rt))))"
    for rt names ind
  proof
    assume "bn \<in> set names"
    then have "bn \<in> set (map fst (filter produces_output (sorted_paths (glob ''AKWF_*'' rt))))"
      using main_manifest_names [OF w] by simp
    then obtain nd where "(bn, nd) \<in> set (sorted_paths (glob ''AKWF_*'' rt))"
      and p: "produces_output (bn, nd)"
      by auto
    then have "(bn, nd) \<in> set rt" by (simp add: set_sorted_paths glob_def)
    with only have "nd = Dir es" by blast
    with p m show False by simp
  qed
  from m r o x show ?thesis by blast
qed

theorem empty_bank_no_output_witness:
  "output_mapping stereo_only = Inr [] \<and>
   snd (process_bank ''AKWF_c'' stereo_only) = Inr None \<and>
   outputs (fst (process_bank ''AKWF_c'' stereo_only)) = [] \<and>
   Write ''manifest.json'' (manifest [''AKWF_a'', ''AKWF_b'']) (Some 2)
     \<in> set (fst (main (Some (Dir sample_root)))) \<and>
   ''AKWF_c'' \<notin> set [''AKWF_a'', ''AKWF_b'']"
proof -
  have s: "\<forall>e \<in> set (glob ''*.wav'' stereo_only). skipped e" by code_simp
  have only: "\<forall>nd. (''AKWF_c'', nd) \<in> set sample_root \<longrightarrow> nd = Dir stereo_only"
    by (simp add: sample_root_def)
  have w: "Write ''manifest.json'' (manifest [''AKWF_a'', ''AKWF_b'']) (Some 2)
     \<in> set (fst (main (Some (Dir sample_root))))"
    by code_simp
  note t = empty_bank_no_output [OF s, of "''AKWF_c''"]
  from t have a: "output_mapping stereo_only = Inr []" by (rule conjunct1)
  from t have b: "snd (process_bank ''AKWF_c'' stereo_only) = Inr None"
    by (rule conjunct2 [THEN conjunct1])
  from t have c: "outputs (fst (process_bank ''AKWF_c'' stereo_only)) = []"
    by (rule conjunct2 [THEN conjunct2, THEN conjunct1])
  from t have "\<forall>rt names ind.
            (\<forall>nd. (''AKWF_c'', nd) \<in> set rt \<longrightarrow> nd = Dir stereo_only) \<longrightarrow>
            Write ''manifest.json'' (manifest names) ind \<in> set (fst (main (Some (Dir rt)))) \<longrightarrow>
            ''AKWF_c'' \<notin> set names"
    by (rule conjunct2 [THEN conjunct2, THEN conjunct2])
  from this [rule_format, OF only [rule_format] w] have d: "''AKWF_c'' \<notin> set [''AKWF_a'', ''AKWF_b'']" .
  from a b c w d show ?thesis by (intro conjI)
qed

lemma wave_open_Inr:
  assumes "wave_open nd = Inr w"
  shows "w_framesize w = w_nchannels w * w_sampwidth w \<and>
         w_nframes w = w_chunksize w div w_framesize w \<and>
         0 < w_sampwidth w \<and> 0 < w_nchannels w"
  using assms unfolding wave_open_def
  by (auto simp: Let_def split: node.splits content.splits if_splits)

subsection \<open>Opening order and keys of a bank\<close>

lemma process_bank_loop_opens_prefix:
  "prefix (fst (process_bank_loop bn files wfs)) (map (\<lambda>e. Open bn (fst e)) files)"
proof (induction files arbitrary: wfs)
  case Nil
  then show ?case by simp
next
  case (Cons e files)
  obtain f nd where e: "e = (f, nd)" by (cases e)
  show ?case unfolding e fst_process_bank_loop_Cons
    by (simp add: Cons.IH split: sum.splits option.splits)
qed

lemma filter_is_open_process_bank_loop:
  "filter is_open (fst (process_bank_loop bn files wfs)) = fst (process_bank_loop bn files wfs)"
proof -
  have "is_open ev" if "ev \<in> set (fst (process_bank_loop bn files wfs))" for ev
    using process_bank_loop_opens [OF that] by auto
  then show ?thesis by (simp add: filter_id_conv)
qed

lemma opens_process_bank_prefix:
  "prefix (filter is_open (fst (process_bank bn es)))
     (map (\<lambda>e. Open bn (fst e)) (sorted_paths (glob ''*.wav'' es)))"
proof -
  obtain evs r where l: "process_bank_loop bn (sorted_paths (glob ''*.wav'' es)) [] = (evs, r)"
    by (cases "process_bank_loop bn (sorted_paths (glob ''*.wav'' es)) []")
  have p: "prefix evs (map (\<lambda>e. Open bn (fst e)) (sorted_paths (glob ''*.wav'' es)))"
    using process_bank_loop_opens_prefix [of bn "sorted_paths (glob ''*.wav'' es)" "[]"] l by simp
  have f: "filter is_open evs = evs"
    using filter_is_open_process_bank_loop [of bn "sorted_paths (glob ''*.wav'' es)" "[]"] l by simp
  have "filter is_open (fst (process_bank bn es)) = evs"
    unfolding process_bank_def l using f by (simp split: sum.splits)
  with p show ?thesis by simp
qed

lemma bank_keys_distinct_names:
  assumes "distinct (map fst es)" and "''.wav'' \<notin> fst ` set es"
    and "output_mapping es = Inr wfs"
  shows "map (\<lambda>k. k @ ''.wav'') (map fst wfs) =
           map fst (filter (\<lambda>e. \<not> skipped e) (sorted_paths (glob ''*.wav'' es))) \<and>
         distinct (map fst wfs)"
proof -
  define files where "files = sorted_paths (glob ''*.wav'' es)"
  have set_files: "set files = {e \<in> set es. glob_match ''*.wav'' (fst e)}"
    by (auto simp: files_def sorted_paths_def glob_def)
  have srt: "sorted (map fst files)"
    by (simp add: files_def sorted_paths_def)
  have st: "stem (fst e) @ ''.wav'' = fst e" if "e \<in> set files" for e
  proof (rule stem_glob_wav)
    show "glob_match ''*.wav'' (fst e)" using that set_files by simp
    from that set_files have "e \<in> set es" by simp
    then have "fst e \<in> fst ` set es" by (rule imageI)
    with assms(2) show "fst e \<noteq> ''.wav''" by metis
  qed
  have dn: "distinct (map fst files)"
  proof -
    have "distinct (map fst (glob ''*.wav'' es))"
      unfolding glob_def using assms(1) by (rule distinct_map_filter)
    then have "distinct (glob ''*.wav'' es) \<and> inj_on fst (set (glob ''*.wav'' es))"
      by (simp add: distinct_map)
    then show ?thesis
      by (simp add: files_def sorted_paths_def distinct_map)
  qed
  have ds: "distinct (map (\<lambda>e. stem (fst e)) files)"
  proof -
    have "inj_on (\<lambda>e. stem (fst e)) (set files)"
    proof (rule inj_onI)
      fix x y assume x: "x \<in> set files" and y: "y \<in> set files"
        and eq: "stem (fst x) = stem (fst y)"
      have "fst x = stem (fst x) @ ''.wav''" using st [OF x] by (rule sym)
      also have "\<dots> = stem (fst y) @ ''.wav''" by (simp only: eq)
      also have "\<dots> = fst y" by (rule st [OF y])
      finally have "fst x = fst y" .
      then show "x = y" using dn x y by (simp add: distinct_map inj_on_def)
    qed
    moreover have "distinct files" using dn by (simp add: distinct_map)
    ultimately show ?thesis by (simp add: distinct_map)
  qed
  have loop: "snd (process_bank_loop [] files []) = Inr wfs"
    using assms(3) by (simp add: output_mapping_def files_def)
  have keys: "map fst wfs = map (\<lambda>e. stem (fst e)) (filter (\<lambda>e. \<not> skipped e) files)"
    using process_bank_loop_keys [OF loop ds] by simp
  have restore: "map (\<lambda>k. k @ ''.wav'') (map (\<lambda>e. stem (fst e)) xs) = map fst xs"
    if "set xs \<subseteq> set files" for xs
    using that
  proof (induction xs)
    case Nil
    show ?case by simp
  next
    case (Cons a xs)
    then have "a \<in> set files" and "set xs \<subseteq> set files" by simp_all
    then show ?case using Cons.IH st [of a] by (simp del: append.simps)
  qed
  have names: "map (\<lambda>k. k @ ''.wav'') (map fst wfs) = map fst (filter (\<lambda>e. \<not> skipped e) files)"
    unfolding keys by (rule restore) simp
  have "distinct (map fst (filter (\<lambda>e. \<not> skipped e) files))"
    using dn by (rule distinct_map_filter)
  then have "distinct (map (\<lambda>k. k @ ''.wav'') (map fst wfs))"
    by (simp only: names)
  then have dk: "distinct (map fst wfs)"
    using distinct_map [of "\<lambda>k. k @ ''.wav''" "map fst wfs"] by blast
  show ?thesis
    using names dk unfolding files_def by simp
qed


text \<open>
  C6, as amended: the sample files of a bank directory are opened in ascending order of
  their names, whatever the directory holds: the files opened are a prefix of the sorted
  list of the entries matching \<^verbatim>\<open>*.wav\<close>, and the whole list when no read raises. In a
  directory with no file named \<^verbatim>\<open>.wav\<close> (and whose reads raise nothing), the keys of the
  output mapping, each with \<^verbatim>\<open>.wav\<close> appended again, are exactly the names of the files
  that were not skipped, in that sorted order; so the keys are pairwise distinct, one
  per file.
\<close>

theorem bank_keys_sorted:
  "sorted (map fst (sorted_paths (glob ''*.wav'' es))) \<and>
   set (sorted_paths (glob ''*.wav'' es)) = {e \<in> set es. glob_match ''*.wav'' (fst e)} \<and>
   prefix (filter is_open (fst (process_bank bn es)))
     (map (\<lambda>e. Open bn (fst e)) (sorted_paths (glob ''*.wav'' es))) \<and>
   (\<not> raises (output_mapping es) \<longrightarrow>
      filter is_open (fst (process_bank bn es)) =
        map (\<lambda>e. Open bn (fst e)) (sorted_paths (glob ''*.wav'' es))) \<and>
   (distinct (map fst es) \<and> ''.wav'' \<notin> fst ` set es \<and> output_mapping es = Inr wfs \<longrightarrow>
      map (\<lambda>k. k @ ''.wav'') (map fst wfs) =
        map fst (filter (\<lambda>e. \<not> skipped e) (sorted_paths (glob ''*.wav'' es))) \<and>
      distinct (map fst wfs))"
proof (intro conjI impI)
  show "sorted (map fst (sorted_paths (glob ''*.wav'' es)))"
    by (simp add: sorted_paths_def)
  show "set (sorted_paths (glob ''*.wav'' es)) = {e \<in> set es. glob_match ''*.wav'' (fst e)}"
    by (auto simp: sorted_paths_def glob_def)
  show "prefix (filter is_open (fst (process_bank bn es)))
     (map (\<lambda>e. Open bn (fst e)) (sorted_paths (glob ''*.wav'' es)))"
    by (rule opens_process_bank_prefix)
next
  assume "\<not> raises (output_mapping es)"
  then show "filter is_open (fst (process_bank bn es)) =
        map (\<lambda>e. Open bn (fst e)) (sorted_paths (glob ''*.wav'' es))"
    by (rule opens_process_bank_ok)
next
  assume a: "distinct (map fst es) \<and> ''.wav'' \<notin> fst ` set es \<and> output_mapping es = Inr wfs"
  note k = bank_keys_distinct_names [OF a [THEN conjunct1] a [THEN conjunct2, THEN conjunct1]
      a [THEN conjunct2, THEN conjunct2]]
  from k show "map (\<lambda>k. k @ ''.wav'') (map fst wfs) =
        map fst (filter (\<lambda>e. \<not> skipped e) (sorted_paths (glob ''*.wav'' es)))"
    by (rule conjunct1)
  from k show "distinct (map fst wfs)" by (rule conjunct2)
qed

theorem bank_keys_sorted_witness:
  "distinct (map fst [(''b.wav'', wav 1 16 [1, 0]), (''c.wav'', wav 2 16 [1, 0, 0, 0]),
       (''a.x.wav'', wav 1 16 [0, 128]), (''notes.txt'', File NotWave)]) \<and>
   output_mapping [(''b.wav'', wav 1 16 [1, 0]), (''c.wav'', wav 2 16 [1, 0, 0, 0]),
       (''a.x.wav'', wav 1 16 [0, 128]), (''notes.txt'', File NotWave)] =
     Inr [(''a.x'', [- 1]), (''b'', [31 / 1000000])] \<and>
   filter is_open (fst (process_bank ''AKWF_t'' [(''b.wav'', wav 1 16 [1, 0]),
       (''c.wav'', wav 2 16 [1, 0, 0, 0]), (''a.x.wav'', wav 1 16 [0, 128]),
       (''notes.txt'', File NotWave)])) =
     map (\<lambda>e. Open ''AKWF_t'' (fst e)) (sorted_paths (glob ''*.wav'' [(''b.wav'', wav 1 16 [1, 0]),
       (''c.wav'', wav 2 16 [1, 0, 0, 0]), (''a.x.wav'', wav 1 16 [0, 128]),
       (''notes.txt'', File NotWave)])) \<and>
   map (\<lambda>k. k @ ''.wav'') (map fst [(''a.x'', [- 1 :: rat]), (''b'', [31 / 1000000])]) =
     map fst (filter (\<lambda>e. \<not> skipped e) (sorted_paths (glob ''*.wav'' [(''b.wav'', wav 1 16 [1, 0]),
       (''c.wav'', wav 2 16 [1, 0, 0, 0]), (''a.x.wav'', wav 1 16 [0, 128]),
       (''notes.txt'', File NotWave)]))) \<and>
   prefix (filter is_open (fst (process_bank ''AKWF_b'' [(''z.wav'', wav 1 16 [1, 0]),
       (''q.wav'', wav 1 8 [1]), (''.wav'', wav 1 16 [0, 128])])))
     (map (\<lambda>e. Open ''AKWF_b'' (fst e)) (sorted_paths (glob ''*.wav'' [(''z.wav'', wav 1 16 [1, 0]),
       (''q.wav'', wav 1 8 [1]), (''.wav'', wav 1 16 [0, 128])]))) \<and>
   filter is_open (fst (process_bank ''AKWF_b'' [(''z.wav'', wav 1 16 [1, 0]),
       (''q.wav'', wav 1 8 [1]), (''.wav'', wav 1 16 [0, 128])])) =
     [Open ''AKWF_b'' ''.wav'', Open ''AKWF_b'' ''q.wav'']"
proof -
  let ?es = "[(''b.wav'', wav 1 16 [1, 0]), (''c.wav'', wav 2 16 [1, 0, 0, 0]),
       (''a.x.wav'', wav 1 16 [0, 128]), (''notes.txt'', File NotWave)]"
  let ?bad = "[(''z.wav'', wav 1 16 [1, 0]), (''q.wav'', wav 1 8 [1]), (''.wav'', wav 1 16 [0, 128])]"
  have d: "distinct (map fst ?es)" by simp
  have n: "''.wav'' \<notin> fst ` set ?es" by simp
  have m: "output_mapping ?es = Inr [(''a.x'', [- 1]), (''b'', [31 / 1000000])]" by code_simp
  have nr: "\<not> raises (output_mapping ?es)" by (simp only: m raises.simps) simp
  note t = bank_keys_sorted [of ?es "''AKWF_t''" "[(''a.x'', [- 1]), (''b'', [31 / 1000000])]"]
  have o: "filter is_open (fst (process_bank ''AKWF_t'' ?es)) =
     map (\<lambda>e. Open ''AKWF_t'' (fst e)) (sorted_paths (glob ''*.wav'' ?es))"
    by (rule t [THEN conjunct2, THEN conjunct2, THEN conjunct2, THEN conjunct1, THEN mp, OF nr])
  have k: "map (\<lambda>k. k @ ''.wav'') (map fst [(''a.x'', [- 1 :: rat]), (''b'', [31 / 1000000])]) =
     map fst (filter (\<lambda>e. \<not> skipped e) (sorted_paths (glob ''*.wav'' ?es)))"
    by (rule t [THEN conjunct2, THEN conjunct2, THEN conjunct2, THEN conjunct2, THEN mp,
          OF conjI [OF d conjI [OF n m]], THEN conjunct1])
  have p: "prefix (filter is_open (fst (process_bank ''AKWF_b'' ?bad)))
     (map (\<lambda>e. Open ''AKWF_b'' (fst e)) (sorted_paths (glob ''*.wav'' ?bad)))"
    by (rule bank_keys_sorted [of ?bad "''AKWF_b''" "[]", THEN conjunct2, THEN conjunct2, THEN conjunct1])
  have q: "filter is_open (fst (process_bank ''AKWF_b'' ?bad)) =
     [Open ''AKWF_b'' ''.wav'', Open ''AKWF_b'' ''q.wav'']"
    by code_simp
  from d m o k p q show ?thesis by (intro conjI)
qed

text \<open>
  The claim as stated fails on a directory holding the mono files \<^verbatim>\<open>.wav\<close> and
  \<^verbatim>\<open>.wav.wav\<close>: both match \<^verbatim>\<open>*.wav\<close> and are read, in that order, and both have the stem
  \<^verbatim>\<open>.wav\<close>. The output mapping has the single key \<^verbatim>\<open>.wav\<close>, which is the whole name of
  the first file, and holds the samples of the second.
\<close>

theorem bank_keys_counterexample:
  "map fst (sorted_paths (glob ''*.wav''
      [(''.wav.wav'', wav 1 16 [1, 0]), (''.wav'', wav 1 16 [0, 128])])) = [''.wav'', ''.wav.wav''] \<and>
   read_wav (wav 1 16 [0, 128]) = Inr (Some [- 1]) \<and>
   read_wav (wav 1 16 [1, 0]) = Inr (Some [31 / 1000000]) \<and>
   stem ''.wav'' = ''.wav'' \<and> stem ''.wav.wav'' = ''.wav'' \<and>
   process_bank ''AKWF_t'' [(''.wav.wav'', wav 1 16 [1, 0]), (''.wav'', wav 1 16 [0, 128])] =
     ([Open ''AKWF_t'' ''.wav'', Open ''AKWF_t'' ''.wav.wav'',
       Write ''AKWF_t.json'' (JObject [(''.wav'', JArray [JNumber (31 / 1000000)])]) None,
       Print (Processed ''AKWF_t'' 1)],
      Inr (Some ''AKWF_t''))"
  by code_simp

subsection \<open>Runs that add nothing to the manifest\<close>

lemma empty_bank_iff: "empty_bank e \<longleftrightarrow> \<not> produces_output e \<and> \<not> bank_raises e"
proof (cases e)
  case (Pair n nd)
  show ?thesis
  proof (cases nd)
    case (File c)
    with Pair show ?thesis by simp
  next
    case (Dir es)
    with Pair show ?thesis by (cases "output_mapping es") auto
  qed
qed

text \<open>
  C10, as amended: when the working root has at least one entry matching \<^verbatim>\<open>AKWF_*\<close>, no
  match produces a non-empty output mapping and no read of a sample file raises, the run
  does not fail: it writes no bank file and prints no progress line, writes
  \<^verbatim>\<open>manifest.json\<close> with an empty \<^verbatim>\<open>banks\<close> list, prints the summary line with 0 and ends
  with exit status 0. This covers the root whose matches are all plain files.
\<close>

theorem empty_manifest:
  assumes "glob ''AKWF_*'' rt \<noteq> []"
    and "\<forall>e \<in> set (glob ''AKWF_*'' rt). \<not> produces_output e"
    and "\<forall>e \<in> set (glob ''AKWF_*'' rt). \<not> bank_raises e"
  shows "\<exists>evs0. main (Some (Dir rt)) =
           (evs0 @ [Write ''manifest.json'' (JObject [(''banks'', JArray [])]) (Some 2),
                    Print (Generated 0)], Finished) \<and>
         outputs evs0 = [] \<and>
         exit_status (snd (main (Some (Dir rt)))) = 0"
proof -
  define dirs where "dirs = sorted_paths (glob ''AKWF_*'' rt)"
  have ne: "dirs \<noteq> []" using assms(1) by (simp add: dirs_def sorted_paths_Nil)
  have "\<forall>e \<in> set dirs. empty_bank e"
    using assms(2,3) by (simp add: dirs_def set_sorted_paths empty_bank_iff)
  then have l: "snd (main_loop dirs []) = Inr []" and o: "outputs (fst (main_loop dirs [])) = []"
    using main_loop_empty_banks [of dirs "[]"] by simp_all
  obtain evs r where ml: "main_loop dirs [] = (evs, r)" by (cases "main_loop dirs []")
  with l o have r: "r = Inr []" and e: "outputs evs = []" by simp_all
  have "main (Some (Dir rt)) =
           (evs @ [Write ''manifest.json'' (JObject [(''banks'', JArray [])]) (Some 2),
                    Print (Generated 0)], Finished)"
    unfolding main_Dir dirs_def [symmetric] using ne by (simp add: ml r manifest_def)
  with e show ?thesis by simp
qed

theorem empty_manifest_witness:
  "glob ''AKWF_*'' empty_root \<noteq> [] \<and>
   filter produces_output (glob ''AKWF_*'' empty_root) = [] \<and>
   filter bank_raises (glob ''AKWF_*'' empty_root) = [] \<and>
   main (Some (Dir empty_root)) =
     ([Open ''AKWF_c'' ''s.wav''] @
      [Write ''manifest.json'' (JObject [(''banks'', JArray [])]) (Some 2), Print (Generated 0)],
      Finished) \<and>
   exit_status (snd (main (Some (Dir empty_root)))) = 0 \<and>
   exit_status (snd (main (Some (Dir [(''AKWF_x'', File NotWave)])))) = 0"
proof -
  have g: "glob ''AKWF_*'' empty_root \<noteq> []" by code_simp
  have p: "\<forall>e \<in> set (glob ''AKWF_*'' empty_root). \<not> produces_output e" by code_simp
  have r: "\<forall>e \<in> set (glob ''AKWF_*'' empty_root). \<not> bank_raises e" by code_simp
  have p': "filter produces_output (glob ''AKWF_*'' empty_root) = []" by code_simp
  have r': "filter bank_raises (glob ''AKWF_*'' empty_root) = []" by code_simp
  have m: "main (Some (Dir empty_root)) =
     ([Open ''AKWF_c'' ''s.wav''] @
      [Write ''manifest.json'' (JObject [(''banks'', JArray [])]) (Some 2), Print (Generated 0)],
      Finished)"
    by code_simp
  from empty_manifest [OF g p r] have x: "exit_status (snd (main (Some (Dir empty_root)))) = 0"
    by (elim exE conjE)
  have g2: "glob ''AKWF_*'' [(''AKWF_x'', File NotWave)] \<noteq> []" by code_simp
  have p2: "\<forall>e \<in> set (glob ''AKWF_*'' [(''AKWF_x'', File NotWave)]). \<not> produces_output e"
    by code_simp
  have r2: "\<forall>e \<in> set (glob ''AKWF_*'' [(''AKWF_x'', File NotWave)]). \<not> bank_raises e"
    by code_simp
  from empty_manifest [OF g2 p2 r2]
  have y: "exit_status (snd (main (Some (Dir [(''AKWF_x'', File NotWave)])))) = 0"
    by (elim exE conjE)
  from g p' r' m x y show ?thesis by (intro conjI)
qed

text \<open>
  The claim as stated fails when a read raises: in a working root whose only bank holds
  an 8-bit mono file with one frame, no match produces a non-empty output mapping, yet
  the run ends with \<^verbatim>\<open>struct.error\<close>, exit status 1, and writes no manifest.
\<close>

theorem empty_manifest_counterexample:
  "glob ''AKWF_*'' raising_root \<noteq> [] \<and>
   filter produces_output (glob ''AKWF_*'' raising_root) = [] \<and>
   main (Some (Dir raising_root)) = ([Open ''AKWF_b'' ''q.wav''], Raised StructError) \<and>
   exit_status (snd (main (Some (Dir raising_root)))) = 1"
  by code_simp

subsection \<open>Exit status\<close>

lemma bank_raises_is_dir: "bank_raises e \<Longrightarrow> is_dir (snd e)"
  by (cases e; cases "snd e") auto

lemma bank_raises_subdirs:
  "(\<exists>e \<in> set (subdirs ps). bank_raises e) \<longleftrightarrow> (\<exists>e \<in> set ps. bank_raises e)"
proof
  assume "\<exists>e \<in> set (subdirs ps). bank_raises e"
  then show "\<exists>e \<in> set ps. bank_raises e" by (auto simp: subdirs_def)
next
  assume "\<exists>e \<in> set ps. bank_raises e"
  then obtain e where e: "e \<in> set ps" and r: "bank_raises e" by blast
  from r have "is_dir (snd e)" by (rule bank_raises_is_dir)
  with e have "e \<in> set (subdirs ps)" by (simp add: subdirs_def)
  with r show "\<exists>e \<in> set (subdirs ps). bank_raises e" by blast
qed

lemma subdirs_nonempty: "subdirs ps \<noteq> [] \<Longrightarrow> ps \<noteq> []"
  by (auto simp: subdirs_def)

text \<open>
  C5, as amended: the run prints to the error stream, writes nothing and ends with exit
  status 1 when the working root is not a directory, and when nothing in it matches
  \<^verbatim>\<open>AKWF_*\<close>. When at least one subdirectory matches, the exit status is 0 if no read of
  a sample file raises, and 1 if one does. Nothing is stated for a working root whose
  matches are all plain files.
\<close>

theorem exit_status_main:
  "((\<forall>ds. work_dir \<noteq> Some (Dir ds)) \<longrightarrow>
      main work_dir = ([PrintErr DirectoryNotFound], SysExit 1) \<and>
      exit_status (snd (main work_dir)) = 1) \<and>
   (glob ''AKWF_*'' rt = [] \<longrightarrow>
      main (Some (Dir rt)) = ([PrintErr NoBankDirectories], SysExit 1) \<and>
      exit_status (snd (main (Some (Dir rt)))) = 1) \<and>
   (subdirs (glob ''AKWF_*'' rt) \<noteq> [] \<and>
    (\<forall>e \<in> set (subdirs (glob ''AKWF_*'' rt)). \<not> bank_raises e) \<longrightarrow>
      snd (main (Some (Dir rt))) = Finished \<and> exit_status (snd (main (Some (Dir rt)))) = 0) \<and>
   ((\<exists>e \<in> set (subdirs (glob ''AKWF_*'' rt)). bank_raises e) \<longrightarrow>
      (\<exists>e. snd (main (Some (Dir rt))) = Raised e) \<and> exit_status (snd (main (Some (Dir rt)))) = 1)"
proof (intro conjI impI)
  assume "\<forall>ds. work_dir \<noteq> Some (Dir ds)"
  then have m: "main work_dir = ([PrintErr DirectoryNotFound], SysExit 1)" by (rule main_not_dir)
  then show "main work_dir = ([PrintErr DirectoryNotFound], SysExit 1)" .
  from m show "exit_status (snd (main work_dir)) = 1" by simp
next
  assume "glob ''AKWF_*'' rt = []"
  then have m: "main (Some (Dir rt)) = ([PrintErr NoBankDirectories], SysExit 1)"
    by (rule main_no_match)
  then show "main (Some (Dir rt)) = ([PrintErr NoBankDirectories], SysExit 1)" .
  from m show "exit_status (snd (main (Some (Dir rt)))) = 1" by simp
next
  assume a: "subdirs (glob ''AKWF_*'' rt) \<noteq> [] \<and>
    (\<forall>e \<in> set (subdirs (glob ''AKWF_*'' rt)). \<not> bank_raises e)"
  from a have "subdirs (glob ''AKWF_*'' rt) \<noteq> []" by (rule conjunct1)
  then have ne: "glob ''AKWF_*'' rt \<noteq> []" by (rule subdirs_nonempty)
  from a have "\<not> (\<exists>e \<in> set (subdirs (glob ''AKWF_*'' rt)). bank_raises e)" by simp
  then have nr: "\<forall>e \<in> set (glob ''AKWF_*'' rt). \<not> bank_raises e"
    by (simp only: bank_raises_subdirs) simp
  from main_ok [OF ne nr]
  have m: "snd (main (Some (Dir rt))) = Finished" by (simp only: snd_conv)
  then show "snd (main (Some (Dir rt))) = Finished" .
  from m show "exit_status (snd (main (Some (Dir rt)))) = 0" by simp
next
  assume "\<exists>e \<in> set (subdirs (glob ''AKWF_*'' rt)). bank_raises e"
  then have "\<exists>e \<in> set (glob ''AKWF_*'' rt). bank_raises e"
    by (simp only: bank_raises_subdirs)
  from main_raise [OF this] obtain e where m: "snd (main (Some (Dir rt))) = Raised e" by auto
  then show "\<exists>e. snd (main (Some (Dir rt))) = Raised e" by (rule exI)
  from m show "exit_status (snd (main (Some (Dir rt)))) = 1" by simp
qed

theorem exit_status_main_witness:
  "main None = ([PrintErr DirectoryNotFound], SysExit 1) \<and>
   exit_status (snd (main None)) = 1 \<and>
   main (Some (Dir [(''other'', Dir [])])) = ([PrintErr NoBankDirectories], SysExit 1) \<and>
   exit_status (snd (main (Some (Dir sample_root)))) = 0 \<and>
   exit_status (snd (main (Some (Dir broken_root)))) = 1"
proof -
  have n: "\<forall>ds. (None :: node option) \<noteq> Some (Dir ds)" by simp
  have g0: "glob ''AKWF_*'' [(''other'', Dir [])] = []" by code_simp
  have g1: "subdirs (glob ''AKWF_*'' sample_root) \<noteq> [] \<and>
      (\<forall>e \<in> set (subdirs (glob ''AKWF_*'' sample_root)). \<not> bank_raises e)" by code_simp
  have g2: "\<exists>e \<in> set (subdirs (glob ''AKWF_*'' broken_root)). bank_raises e" by code_simp
  note t = exit_status_main [of None "[(''other'', Dir [])]"]
  have a: "main None = ([PrintErr DirectoryNotFound], SysExit 1)"
    by (rule t [THEN conjunct1, THEN mp, OF n, THEN conjunct1])
  have b: "exit_status (snd (main None)) = 1"
    by (rule t [THEN conjunct1, THEN mp, OF n, THEN conjunct2])
  have c: "main (Some (Dir [(''other'', Dir [])])) = ([PrintErr NoBankDirectories], SysExit 1)"
    by (rule t [THEN conjunct2, THEN conjunct1, THEN mp, OF g0, THEN conjunct1])
  have d: "exit_status (snd (main (Some (Dir sample_root)))) = 0"
    by (rule exit_status_main [of None sample_root, THEN conjunct2, THEN conjunct2, THEN conjunct1,
          THEN mp, OF g1, THEN conjunct2])
  have e: "exit_status (snd (main (Some (Dir broken_root)))) = 1"
    by (rule exit_status_main [of None broken_root, THEN conjunct2, THEN conjunct2, THEN conjunct2,
          THEN mp, OF g2, THEN conjunct2])
  from a b c d e show ?thesis by (intro conjI)
qed

text \<open>
  The claim as stated fails on a working root that is a directory with matching
  subdirectories when a sample file is malformed: the exit status is then 1, not 0.
\<close>

theorem exit_status_counterexample:
  "subdirs (glob ''AKWF_*'' broken_root) \<noteq> [] \<and>
   main (Some (Dir broken_root)) =
     ([Open ''AKWF_a'' ''y.wav'',
       Write ''AKWF_a.json'' (JObject [(''y'', JArray [JNumber (31 / 1000000)])]) None,
       Print (Processed ''AKWF_a'' 1), Open ''AKWF_b'' ''q.wav''],
      Raised StructError) \<and>
   exit_status (snd (main (Some (Dir broken_root)))) = 1"
  by code_simp

text \<open>
  On a working root whose only match of \<^verbatim>\<open>AKWF_*\<close> is a plain file, line 68 sees a
  non-empty glob result and line 74 then skips the file: no directory matches, yet the
  error of line 69, \<^verbatim>\<open>No AKWF_* directories found\<close>, is not reported; the run writes an
  empty manifest and ends with status 0.
\<close>

lemma file_only_root_succeeds:
  "subdirs (glob ''AKWF_*'' [(''AKWF_x'', File NotWave)]) = [] \<and>
   main (Some (Dir [(''AKWF_x'', File NotWave)])) =
     ([Write ''manifest.json'' (JObject [(''banks'', JArray [])]) (Some 2), Print (Generated 0)],
      Finished) \<and>
   exit_status (snd (main (Some (Dir [(''AKWF_x'', File NotWave)])))) = 0"
  by code_simp

subsection \<open>Files on which the read raises\<close>

lemma length_readframes_mono:
  assumes "wave_open nd = Inr w" and "w_nchannels w = 1"
  shows "length (readframes w (w_nframes w)) =
    (if w_nframes w = 0 then 0 else min (w_nframes w * w_sampwidth w) (length (w_data w)))"
proof -
  from wave_open_Inr [OF assms(1)] have fs: "w_framesize w = w_nchannels w * w_sampwidth w"
    and nf: "w_nframes w = w_chunksize w div w_framesize w"
    by simp_all
  have fsw: "w_framesize w = w_sampwidth w" using fs assms(2) by simp
  have "w_nframes w * w_framesize w \<le> w_chunksize w"
    unfolding nf by simp
  then have "min (w_nframes w * w_sampwidth w) (w_chunksize w) = w_nframes w * w_sampwidth w"
    by (simp add: fsw)
  then show ?thesis
    by (simp add: readframes_def fsw min.commute)
qed

lemma read_wav_mono:
  assumes "wave_open nd = Inr w" and "w_nchannels w = 1"
  shows "read_wav nd =
    (if length (readframes w (w_nframes w)) \<noteq> 2 * w_nframes w then Inl StructError
     else Inr (Some (map normalize (unpack_items (readframes w (w_nframes w))))))"
  using assms by (simp add: read_wav_def Let_def struct_unpack_def)

lemma raises_iff_malformed: "raises (read_wav nd) \<longleftrightarrow> malformed nd"
proof (cases "wave_open nd")
  case (Inl e)
  then show ?thesis by (simp add: read_wav_def malformed_def)
next
  case (Inr w)
  show ?thesis
  proof (cases "w_nchannels w = 1")
    case False
    then show ?thesis using Inr by (simp add: read_wav_def malformed_def)
  next
    case True
    have "raises (read_wav nd) \<longleftrightarrow> length (readframes w (w_nframes w)) \<noteq> 2 * w_nframes w"
      by (simp add: read_wav_mono [OF Inr True])
    also have "\<dots> \<longleftrightarrow> 0 < w_nframes w \<and>
        min (w_nframes w * w_sampwidth w) (length (w_data w)) \<noteq> 2 * w_nframes w"
      by (simp add: length_readframes_mono [OF Inr True])
    finally show ?thesis using Inr True by (simp add: malformed_def)
  qed
qed

lemma zero_frames_accepted:
  assumes "wave_open nd = Inr w" and "w_nchannels w = 1" and "w_nframes w = 0"
  shows "read_wav nd = Inr (Some [])"
  using assms by (simp add: read_wav_mono [OF assms(1,2)] readframes_def)

lemma malformed_cases:
  assumes "wave_open nd = Inr w" and "w_nchannels w = 1" and "0 < w_nframes w"
    and "w_sampwidth w = 1
         \<or> w_sampwidth w \<noteq> 2 \<and> w_nframes w * w_sampwidth w \<le> length (w_data w)
         \<or> w_sampwidth w = 2 \<and> length (w_data w) < 2 * w_nframes w"
  shows "malformed nd"
proof -
  define n where "n = w_nframes w"
  define s where "s = w_sampwidth w"
  define l where "l = length (w_data w)"
  have n: "0 < n" using assms(3) by (simp add: n_def)
  from assms(4) consider (one) "s = 1" | (width) "s \<noteq> 2" "n * s \<le> l" | (short) "s = 2" "l < 2 * n"
    unfolding n_def s_def l_def by blast
  then have "min (n * s) l \<noteq> 2 * n"
  proof cases
    case one
    have "min (n * s) l \<le> n" by (simp add: one)
    with n show ?thesis by simp
  next
    case width
    then have "min (n * s) l = n * s" by simp
    with width n show ?thesis by (simp add: mult.commute)
  next
    case short
    have "min (n * s) l \<le> l" by simp
    with short show ?thesis by simp
  qed
  with n show ?thesis
    using assms(1,2) by (simp add: malformed_def n_def s_def l_def)
qed

text \<open>
  C7, as amended: \<open>read_wav\<close> raises exactly on the files \<^verbatim>\<open>wave.open\<close> refuses and on
  the mono files with at least one frame for which the bytes read, frame count times
  sample width or what the file still holds of them, are not two per frame. Among them
  are every mono file with a frame whose samples are 1 byte wide, every mono file with
  a frame whose sample width is not 2 and whose frames are all present, and every mono
  file of 2-byte samples cut short. A mono file with no frame is accepted with an
  empty waveform, whatever its sample width. When a file on which the read raises
  matches \<^verbatim>\<open>*.wav\<close> in a directory matching \<^verbatim>\<open>AKWF_*\<close>, the exception ends the run: \<open>main\<close>
  does not return, the exit status is 1 and no manifest is written.
\<close>

theorem malformed_file_aborts:
  "(raises (read_wav nd) \<longleftrightarrow> malformed nd) \<and>
   (wave_open nd = Inr w \<and> w_nchannels w = 1 \<and> 0 < w_nframes w \<and>
      (w_sampwidth w = 1
       \<or> w_sampwidth w \<noteq> 2 \<and> w_nframes w * w_sampwidth w \<le> length (w_data w)
       \<or> w_sampwidth w = 2 \<and> length (w_data w) < 2 * w_nframes w) \<longrightarrow>
      malformed nd) \<and>
   (wave_open nd = Inr w \<and> w_nchannels w = 1 \<and> w_nframes w = 0 \<longrightarrow>
      read_wav nd = Inr (Some [])) \<and>
   ((bn, Dir es) \<in> set rt \<and> glob_match ''AKWF_*'' bn \<and>
    (f, nd) \<in> set es \<and> glob_match ''*.wav'' f \<and> malformed nd \<longrightarrow>
      (\<exists>e. snd (main (Some (Dir rt))) = Raised e) \<and>
      exit_status (snd (main (Some (Dir rt)))) = 1 \<and>
      (\<forall>v ind. Write ''manifest.json'' v ind \<notin> set (fst (main (Some (Dir rt))))))"
proof (intro conjI impI)
  show "raises (read_wav nd) \<longleftrightarrow> malformed nd" by (rule raises_iff_malformed)
next
  assume a: "wave_open nd = Inr w \<and> w_nchannels w = 1 \<and> 0 < w_nframes w \<and>
      (w_sampwidth w = 1
       \<or> w_sampwidth w \<noteq> 2 \<and> w_nframes w * w_sampwidth w \<le> length (w_data w)
       \<or> w_sampwidth w = 2 \<and> length (w_data w) < 2 * w_nframes w)"
  show "malformed nd"
    by (rule malformed_cases [OF a [THEN conjunct1] a [THEN conjunct2, THEN conjunct1]
          a [THEN conjunct2, THEN conjunct2, THEN conjunct1]
          a [THEN conjunct2, THEN conjunct2, THEN conjunct2]])
next
  assume a: "wave_open nd = Inr w \<and> w_nchannels w = 1 \<and> w_nframes w = 0"
  show "read_wav nd = Inr (Some [])"
    by (rule zero_frames_accepted [OF a [THEN conjunct1] a [THEN conjunct2, THEN conjunct1]
          a [THEN conjunct2, THEN conjunct2]])
next
  assume a: "(bn, Dir es) \<in> set rt \<and> glob_match ''AKWF_*'' bn \<and>
    (f, nd) \<in> set es \<and> glob_match ''*.wav'' f \<and> malformed nd"
  then have a1: "(bn, Dir es) \<in> set rt" and a2: "glob_match ''AKWF_*'' bn"
    and a3: "(f, nd) \<in> set es" and a4: "glob_match ''*.wav'' f" and a5: "malformed nd"
    by simp_all
  have r: "raises (read_wav nd)" using a5 by (simp only: raises_iff_malformed)
  have "(f, nd) \<in> set (glob ''*.wav'' es)" using a3 a4 by (simp add: glob_def)
  with r have "\<exists>e \<in> set (glob ''*.wav'' es). raises (read_wav (snd e))" by force
  then have "bank_raises (bn, Dir es)" by (simp add: output_mapping_raises)
  moreover have "(bn, Dir es) \<in> set (glob ''AKWF_*'' rt)"
    using a1 a2 by (simp add: glob_def)
  ultimately have ex: "\<exists>e \<in> set (glob ''AKWF_*'' rt). bank_raises e" by blast
  from main_raise [OF ex] obtain e where
    m: "main (Some (Dir rt)) = (fst (main_loop (sorted_paths (glob ''AKWF_*'' rt)) []), Raised e)"
    by blast
  have nm: "\<forall>e \<in> set (sorted_paths (glob ''AKWF_*'' rt)). glob_match ''AKWF_*'' (fst e)"
    using glob_AKWF_names [of rt] by simp
  show "\<forall>v ind. Write ''manifest.json'' v ind \<notin> set (fst (main (Some (Dir rt))))"
    unfolding m fst_conv using nm by (intro allI) (rule main_loop_no_manifest)
  from m have s: "snd (main (Some (Dir rt))) = Raised e" by simp
  then show "exit_status (snd (main (Some (Dir rt)))) = 1" by simp
  from s show "\<exists>e. snd (main (Some (Dir rt))) = Raised e" by (rule exI)
qed

theorem malformed_file_aborts_witness:
  "malformed (wav 1 8 [1]) \<and> raises (read_wav (wav 1 8 [1])) \<and>
   malformed (File NotWave) \<and>
   malformed (File (Riff \<lparr>pcm = True, channels = 1, bits = 16, chunksize = 4, payload = [1, 0, 2]\<rparr>)) \<and>
   malformed (File (Riff \<lparr>pcm = True, channels = 1, bits = 8, chunksize = 4, payload = [1, 0]\<rparr>)) \<and>
   read_wav (wav 1 24 [1, 2]) = Inr (Some []) \<and>
   main (Some (Dir broken_root)) =
     ([Open ''AKWF_a'' ''y.wav'',
       Write ''AKWF_a.json'' (JObject [(''y'', JArray [JNumber (31 / 1000000)])]) None,
       Print (Processed ''AKWF_a'' 1), Open ''AKWF_b'' ''q.wav''],
      Raised StructError) \<and>
   exit_status (snd (main (Some (Dir broken_root)))) = 1"
proof -
  let ?w8 = "\<lparr>w_nchannels = 1, w_sampwidth = 1, w_framesize = 1, w_nframes = 1,
       w_chunksize = 1, w_data = [1 :: byte]\<rparr>"
  let ?w24 = "\<lparr>w_nchannels = 1, w_sampwidth = 3, w_framesize = 3, w_nframes = 0,
       w_chunksize = 2, w_data = [1, 2 :: byte]\<rparr>"
  have o8: "wave_open (wav 1 8 [1]) = Inr ?w8" by (simp add: wave_open_def wav_def)
  have o24: "wave_open (wav 1 24 [1, 2]) = Inr ?w24" by (simp add: wave_open_def wav_def)
  have h8: "wave_open (wav 1 8 [1]) = Inr ?w8 \<and> w_nchannels ?w8 = 1 \<and> 0 < w_nframes ?w8 \<and>
      (w_sampwidth ?w8 = 1
       \<or> w_sampwidth ?w8 \<noteq> 2 \<and> w_nframes ?w8 * w_sampwidth ?w8 \<le> length (w_data ?w8)
       \<or> w_sampwidth ?w8 = 2 \<and> length (w_data ?w8) < 2 * w_nframes ?w8)"
    using o8 by simp
  have h24: "wave_open (wav 1 24 [1, 2]) = Inr ?w24 \<and> w_nchannels ?w24 = 1 \<and> w_nframes ?w24 = 0"
    using o24 by simp
  have e: "malformed (wav 1 8 [1])"
    by (rule malformed_file_aborts [THEN conjunct2, THEN conjunct1, THEN mp, OF h8])
  have r: "raises (read_wav (wav 1 8 [1]))"
    using e by (simp only: malformed_file_aborts [THEN conjunct1])
  have z: "read_wav (wav 1 24 [1, 2]) = Inr (Some [])"
    by (rule malformed_file_aborts [THEN conjunct2, THEN conjunct2, THEN conjunct1, THEN mp, OF h24])
  have a: "(''AKWF_b'', Dir [(''q.wav'', wav 1 8 [1])]) \<in> set broken_root"
    by (simp add: broken_root_def)
  have b: "glob_match ''AKWF_*'' ''AKWF_b''" by simp
  have c: "(''q.wav'', wav 1 8 [1]) \<in> set [(''q.wav'', wav 1 8 [1])]" by simp
  have d: "glob_match ''*.wav'' ''q.wav''" by simp
  have x: "exit_status (snd (main (Some (Dir broken_root)))) = 1"
    by (rule malformed_file_aborts [THEN conjunct2, THEN conjunct2, THEN conjunct2, THEN mp,
          OF conjI [OF a conjI [OF b conjI [OF c conjI [OF d e]]]], THEN conjunct2, THEN conjunct1])
  have e2: "malformed (File NotWave)" by code_simp
  have e3: "malformed (File (Riff \<lparr>pcm = True, channels = 1, bits = 16, chunksize = 4,
      payload = [1, 0, 2]\<rparr>))" by code_simp
  have e4: "malformed (File (Riff \<lparr>pcm = True, channels = 1, bits = 8, chunksize = 4,
      payload = [1, 0]\<rparr>))" by code_simp
  have m: "main (Some (Dir broken_root)) =
     ([Open ''AKWF_a'' ''y.wav'',
       Write ''AKWF_a.json'' (JObject [(''y'', JArray [JNumber (31 / 1000000)])]) None,
       Print (Processed ''AKWF_a'' 1), Open ''AKWF_b'' ''q.wav''],
      Raised StructError)"
    by code_simp
  from e r e2 e3 e4 z m x show ?thesis by (intro conjI)
qed

text \<open>
  The claim as stated fails on files that break the 16-bit assumption and are read all
  the same: an 8-bit mono file with no frames is accepted with an empty waveform and its
  bank is written, and a 24-bit mono file declaring one frame of which only two bytes
  are in the file yields one sample made of these two bytes.
\<close>

theorem malformed_file_counterexample:
  "read_wav (wav 1 8 []) = Inr (Some []) \<and>
   main (Some (Dir [(''AKWF_b'', Dir [(''z.wav'', wav 1 8 [])])])) =
     ([Open ''AKWF_b'' ''z.wav'',
       Write ''AKWF_b.json'' (JObject [(''z'', JArray [])]) None,
       Print (Processed ''AKWF_b'' 1),
       Write ''manifest.json'' (JObject [(''banks'', JArray [JString ''AKWF_b''])]) (Some 2),
       Print (Generated 1)],
      Finished) \<and>
   read_wav (File (Riff \<lparr>pcm = True, channels = 1, bits = 24, chunksize = 3, payload = [1, 0]\<rparr>)) =
     Inr (Some [31 / 1000000])"
  by code_simp

end
